theory Spec2Isabelle
  imports Main
begin

section \<open>A model of \<open>advanced-vector/vector.h\<close>\<close>

text \<open>
  The header defines two class templates: \<open>RawMemory<T>\<close>, a block of raw storage for
  \<open>capacity_\<close> objects of type \<open>T\<close>, and \<open>Vector<T>\<close>, which owns one \<open>RawMemory<T>\<close> and
  keeps the first \<open>size_\<close> slots of it alive.

  The embedding keeps the two levels apart, as the code does.  A block of raw storage is
  a list of slots; a slot is \<open>None\<close> while it holds no object and \<open>Some x\<close> while it
  holds a live object of value \<open>x\<close>.  Blocks live in a heap indexed by block addresses,
  \<open>Vector\<close> objects live in an object store indexed by object addresses, and every
  function of the header is a state transformer on that world which either returns a
  result or leaves with an \<open>error\<close>.

  \<^item> \<open>size_t\<close> is modelled by \<open>nat\<close>.  The header does arithmetic on sizes in two places
    only: \<open>size_ * 2\<close> when a full vector grows, and \<open>n * sizeof(T)\<close> inside
    \<open>Allocate\<close>.  The model's \<open>Allocate\<close> hands out a block of exactly \<open>n\<close> slots or
    throws: this is what the header does as long as \<open>n * sizeof(T)\<close> does not wrap in
    \<open>size_t\<close>.  The growth asks for twice the capacity of a block that exists.
    \<open>Reserve\<close> and \<open>Resize\<close> ask for what the caller says, and what is proved about
    them is proved for the arguments whose product with \<open>sizeof(T)\<close> does not wrap
    (\<open>fits\<close> below).
  \<^item> A \<open>T*\<close> is a pair of a block address (\<open>None\<close> for \<open>nullptr\<close>) and an offset into
    the block.  The iterators of the public interface are such pointers.
  \<^item> Everything the element type does is a parameter: which special member functions
    it has is the record \<open>traits\<close>; which of its calls throw is the schedule \<open>sched\<close> of
    the world, consumed one entry per call that is allowed to throw.  The calls of
    \<open>operator new\<close> consume the same schedule.
  \<^item> Undefined behaviour (a read of a slot that holds no object, an access outside a
    block, a violated precondition of the interface) is the error \<open>Undefined\<close>; no
    handler and no destructor runs after it.
\<close>

subsection \<open>Errors and the monad of state and exceptions\<close>

datatype error = ElemThrow | BadAlloc | Undefined

type_synonym ('w, 'r) M = "'w \<Rightarrow> (error + 'r) \<times> 'w"

definition ret :: "'r \<Rightarrow> ('w, 'r) M" where
  "ret x = (\<lambda>w. (Inr x, w))"

definition throw :: "error \<Rightarrow> ('w, 'r) M" where
  "throw e = (\<lambda>w. (Inl e, w))"

definition bnd :: "('w, 'r) M \<Rightarrow> ('r \<Rightarrow> ('w, 'q) M) \<Rightarrow> ('w, 'q) M" where
  "bnd m f = (\<lambda>w. case m w of (Inl e, w') \<Rightarrow> (Inl e, w') | (Inr x, w') \<Rightarrow> f x w')"

text \<open>
  \<open>unwind m c\<close> is the scope of an object with a destructor, or a \<open>try\<close> block that
  rethrows: when \<open>m\<close> leaves by an exception, \<open>c\<close> runs and the exception travels on.
\<close>

definition unwind :: "('w, 'r) M \<Rightarrow> ('w, unit) M \<Rightarrow> ('w, 'r) M" where
  "unwind m c = (\<lambda>w. case m w of
       (Inl e, w') \<Rightarrow>
         (if e = Undefined then (Inl e, w')
          else (case c w' of (Inl e', w'') \<Rightarrow> (Inl e', w'') | (Inr _, w'') \<Rightarrow> (Inl e, w'')))
     | (Inr x, w') \<Rightarrow> (Inr x, w'))"

subsection \<open>The element type\<close>

text \<open>
  \<open>nothrow_move\<close> and \<open>copy_constructible\<close> are \<open>std::is_nothrow_move_constructible_v<T>\<close>
  and \<open>std::is_copy_constructible_v<T>\<close>; \<open>default_value\<close> is the value of \<open>T()\<close>;
  \<open>moved_from x\<close> is the value an object of value \<open>x\<close> is left with after it has been
  moved from; \<open>size_of\<close> is \<open>sizeof(T)\<close>.
\<close>

record 'a traits =
  nothrow_move :: bool
  copy_constructible :: bool
  default_value :: 'a
  moved_from :: "'a \<Rightarrow> 'a"
  size_of :: nat

text \<open>The condition of every \<open>if constexpr\<close> of the header.\<close>

definition use_move :: "'a traits \<Rightarrow> bool" where
  "use_move tr \<longleftrightarrow> nothrow_move tr \<or> \<not> copy_constructible tr"

datatype ctor = DefaultCtor | CopyCtor | MoveCtor | ArgsCtor

definition can_throw :: "'a traits \<Rightarrow> ctor \<Rightarrow> bool" where
  "can_throw tr k \<longleftrightarrow> \<not> (k = MoveCtor \<and> nothrow_move tr)"

subsection \<open>The world: heap, objects, schedule and counters\<close>

text \<open>
  The data members \<open>buffer_\<close>, \<open>capacity_\<close>, \<open>data_\<close> and \<open>size_\<close> of the header are the
  fields \<open>m_buffer\<close>, \<open>m_capacity\<close>, \<open>m_data\<close> and \<open>m_size\<close> here (a field name of a
  record cannot end in an underscore).
\<close>

record RawMemory =
  m_buffer :: "nat option"
  m_capacity :: nat

record Vector =
  m_data :: RawMemory
  m_size :: nat

type_synonym ptr = "nat option \<times> nat"

record 'a world =
  heap :: "nat \<Rightarrow> 'a option list option"
  next_block :: nat
  objs :: "nat \<Rightarrow> Vector option"
  sched :: "bool list"
  n_default :: nat
  n_copy :: nat
  n_move :: nat
  n_args :: nat
  n_dtor :: nat
  n_alloc :: nat
  n_dealloc :: nat

definition n_ctor :: "'a world \<Rightarrow> nat" where
  "n_ctor w = n_default w + n_copy w + n_move w + n_args w"

definition ptr_add :: "ptr \<Rightarrow> nat \<Rightarrow> ptr" where
  "ptr_add p k = (fst p, snd p + k)"

text \<open>The slot a pointer points to: \<open>None\<close> when there is no such slot.\<close>

definition slot :: "'a world \<Rightarrow> ptr \<Rightarrow> 'a option option" where
  "slot w p = (case fst p of None \<Rightarrow> None
     | Some a \<Rightarrow> (case heap w a of None \<Rightarrow> None
        | Some xs \<Rightarrow> if snd p < length xs then Some (xs ! snd p) else None))"

definition poke :: "ptr \<Rightarrow> 'a option \<Rightarrow> 'a world \<Rightarrow> 'a world" where
  "poke p c w = (case fst p of None \<Rightarrow> w
     | Some a \<Rightarrow> (case heap w a of None \<Rightarrow> w
        | Some xs \<Rightarrow> w\<lparr>heap := (heap w)(a \<mapsto> xs[snd p := c])\<rparr>))"

text \<open>The next call that may throw asks the schedule.\<close>

definition attempt :: "error \<Rightarrow> ('a world, unit) M" where
  "attempt e = (\<lambda>w. case sched w of [] \<Rightarrow> (Inr (), w)
     | b # bs \<Rightarrow> (if b then Inl e else Inr (), w\<lparr>sched := bs\<rparr>))"

definition count_ctor :: "ctor \<Rightarrow> 'a world \<Rightarrow> 'a world" where
  "count_ctor k w = (case k of
       DefaultCtor \<Rightarrow> w\<lparr>n_default := Suc (n_default w)\<rparr>
     | CopyCtor \<Rightarrow> w\<lparr>n_copy := Suc (n_copy w)\<rparr>
     | MoveCtor \<Rightarrow> w\<lparr>n_move := Suc (n_move w)\<rparr>
     | ArgsCtor \<Rightarrow> w\<lparr>n_args := Suc (n_args w)\<rparr>)"

subsection \<open>Objects of the element type\<close>

text \<open>The object a pointer points to; there must be one.\<close>

definition load :: "ptr \<Rightarrow> ('a world, 'a) M" where
  "load p = (\<lambda>w. case slot w p of Some (Some x) \<Rightarrow> (Inr x, w) | _ \<Rightarrow> (Inl Undefined, w))"

text \<open>
  \<open>new (p) T(...)\<close>: the constructor \<open>k\<close> runs on the storage at \<open>p\<close> and, unless it
  throws, leaves an object of value \<open>x\<close> there.  Placement new does not look at what
  the storage held before.
\<close>

definition construct_at :: "'a traits \<Rightarrow> ctor \<Rightarrow> ptr \<Rightarrow> 'a \<Rightarrow> ('a world, unit) M" where
  "construct_at tr k p x = (\<lambda>w. case slot w p of None \<Rightarrow> (Inl Undefined, w)
     | Some _ \<Rightarrow> bnd (if can_throw tr k then attempt ElemThrow else ret ())
         (\<lambda>_ w'. (Inr (), count_ctor k (poke p (Some x) w'))) w)"

definition copy_construct :: "'a traits \<Rightarrow> ptr \<Rightarrow> ptr \<Rightarrow> ('a world, unit) M" where
  "copy_construct tr dst src = bnd (load src) (\<lambda>x. construct_at tr CopyCtor dst x)"

definition move_construct :: "'a traits \<Rightarrow> ptr \<Rightarrow> ptr \<Rightarrow> ('a world, unit) M" where
  "move_construct tr dst src = bnd (load src) (\<lambda>x.
     bnd (construct_at tr MoveCtor dst x) (\<lambda>_ w.
       (Inr (), poke src (Some (moved_from tr x)) w)))"

definition destroy_at :: "ptr \<Rightarrow> ('a world, unit) M" where
  "destroy_at p = bnd (load p) (\<lambda>_ w. (Inr (), (poke p None w)\<lparr>n_dtor := Suc (n_dtor w)\<rparr>))"

text \<open>\<open>*dst = x\<close> with the copy or the move assignment operator; both may throw.\<close>

definition assign_at :: "ptr \<Rightarrow> 'a \<Rightarrow> ('a world, unit) M" where
  "assign_at dst x = bnd (load dst) (\<lambda>_.
     bnd (attempt ElemThrow) (\<lambda>_ w. (Inr (), poke dst (Some x) w)))"

definition copy_assign :: "ptr \<Rightarrow> ptr \<Rightarrow> ('a world, unit) M" where
  "copy_assign dst src = bnd (load src) (\<lambda>x. assign_at dst x)"

definition move_assign :: "'a traits \<Rightarrow> ptr \<Rightarrow> ptr \<Rightarrow> ('a world, unit) M" where
  "move_assign tr dst src = bnd (load src) (\<lambda>x.
     bnd (assign_at dst x) (\<lambda>_ w. (Inr (), poke src (Some (moved_from tr x)) w)))"

text \<open>
  A local variable \<open>T tmp(...)\<close> is not in the heap: its construction and its
  destruction are counted, its value is a value of the model.
\<close>

definition construct_local :: "'a traits \<Rightarrow> ctor \<Rightarrow> ('a world, unit) M" where
  "construct_local tr k =
     bnd (if can_throw tr k then attempt ElemThrow else ret ())
       (\<lambda>_ w. (Inr (), count_ctor k w))"

definition destroy_local :: "('a world, unit) M" where
  "destroy_local = (\<lambda>w. (Inr (), w\<lparr>n_dtor := Suc (n_dtor w)\<rparr>))"

subsection \<open>Algorithms of the standard library\<close>

text \<open>
  The loops of \<open><memory>\<close> and \<open><algorithm>\<close> the header calls, each on a first
  pointer and a count.  The \<open>uninitialized_\<close> algorithms destroy what they have
  constructed when a constructor throws, and rethrow.
\<close>

fun destroy_n :: "ptr \<Rightarrow> nat \<Rightarrow> ('a world, unit) M" where
  "destroy_n p 0 = ret ()"
| "destroy_n p (Suc n) = bnd (destroy_at p) (\<lambda>_. destroy_n (ptr_add p 1) n)"

fun uninit_copy_loop :: "'a traits \<Rightarrow> ptr \<Rightarrow> ptr \<Rightarrow> nat \<Rightarrow> nat \<Rightarrow> ('a world, unit) M" where
  "uninit_copy_loop tr src dst i 0 = ret ()"
| "uninit_copy_loop tr src dst i (Suc n) =
     bnd (unwind (copy_construct tr (ptr_add dst i) (ptr_add src i)) (destroy_n dst i))
       (\<lambda>_. uninit_copy_loop tr src dst (Suc i) n)"

definition uninitialized_copy_n :: "'a traits \<Rightarrow> ptr \<Rightarrow> nat \<Rightarrow> ptr \<Rightarrow> ('a world, unit) M" where
  "uninitialized_copy_n tr src n dst = uninit_copy_loop tr src dst 0 n"

fun uninit_move_loop :: "'a traits \<Rightarrow> ptr \<Rightarrow> ptr \<Rightarrow> nat \<Rightarrow> nat \<Rightarrow> ('a world, unit) M" where
  "uninit_move_loop tr src dst i 0 = ret ()"
| "uninit_move_loop tr src dst i (Suc n) =
     bnd (unwind (move_construct tr (ptr_add dst i) (ptr_add src i)) (destroy_n dst i))
       (\<lambda>_. uninit_move_loop tr src dst (Suc i) n)"

definition uninitialized_move_n :: "'a traits \<Rightarrow> ptr \<Rightarrow> nat \<Rightarrow> ptr \<Rightarrow> ('a world, unit) M" where
  "uninitialized_move_n tr src n dst = uninit_move_loop tr src dst 0 n"

fun uninit_value_loop :: "'a traits \<Rightarrow> ptr \<Rightarrow> nat \<Rightarrow> nat \<Rightarrow> ('a world, unit) M" where
  "uninit_value_loop tr dst i 0 = ret ()"
| "uninit_value_loop tr dst i (Suc n) =
     bnd (unwind (construct_at tr DefaultCtor (ptr_add dst i) (default_value tr)) (destroy_n dst i))
       (\<lambda>_. uninit_value_loop tr dst (Suc i) n)"

definition uninitialized_value_construct_n :: "'a traits \<Rightarrow> ptr \<Rightarrow> nat \<Rightarrow> ('a world, unit) M" where
  "uninitialized_value_construct_n tr dst n = uninit_value_loop tr dst 0 n"

text \<open>\<open>std::copy\<close> and \<open>std::move\<close> assign from the first element of the range on.\<close>

fun std_copy :: "ptr \<Rightarrow> nat \<Rightarrow> ptr \<Rightarrow> ('a world, unit) M" where
  "std_copy src 0 dst = ret ()"
| "std_copy src (Suc n) dst =
     bnd (copy_assign dst src) (\<lambda>_. std_copy (ptr_add src 1) n (ptr_add dst 1))"

fun std_move :: "'a traits \<Rightarrow> ptr \<Rightarrow> nat \<Rightarrow> ptr \<Rightarrow> ('a world, unit) M" where
  "std_move tr src 0 dst = ret ()"
| "std_move tr src (Suc n) dst =
     bnd (move_assign tr dst src) (\<lambda>_. std_move tr (ptr_add src 1) n (ptr_add dst 1))"

text \<open>
  \<open>std::copy_backward\<close> and \<open>std::move_backward\<close> assign from the last element of the
  range on, to the slots that end at \<open>d_last\<close>.
\<close>

fun copy_backward :: "ptr \<Rightarrow> nat \<Rightarrow> ptr \<Rightarrow> ('a world, unit) M" where
  "copy_backward src 0 d_last = ret ()"
| "copy_backward src (Suc n) d_last =
     (if snd d_last = 0 then throw Undefined
      else bnd (copy_assign (fst d_last, snd d_last - 1) (ptr_add src n))
        (\<lambda>_. copy_backward src n (fst d_last, snd d_last - 1)))"

fun move_backward :: "'a traits \<Rightarrow> ptr \<Rightarrow> nat \<Rightarrow> ptr \<Rightarrow> ('a world, unit) M" where
  "move_backward tr src 0 d_last = ret ()"
| "move_backward tr src (Suc n) d_last =
     (if snd d_last = 0 then throw Undefined
      else bnd (move_assign tr (fst d_last, snd d_last - 1) (ptr_add src n))
        (\<lambda>_. move_backward tr src n (fst d_last, snd d_last - 1)))"

subsection \<open>\<open>RawMemory\<close>\<close>

text \<open>
  \<open>Allocate\<close> calls \<open>operator new\<close> unless \<open>n\<close> is 0; \<open>operator new\<close> throws
  \<open>std::bad_alloc\<close> or returns a block no one else holds.  \<open>Deallocate\<close> calls
  \<open>operator delete\<close>, which does nothing on \<open>nullptr\<close>; the objects still in the block
  are not destroyed.
\<close>

text \<open>
  The argument of \<open>operator new\<close> is \<open>n * sizeof(T)\<close>, a product of two \<open>size_t\<close>: on a
  platform with a \<open>size_t\<close> of 64 bits it is \<open>alloc_bytes\<close>.  For an \<open>n\<close> that \<open>fits\<close> the
  product does not wrap and \<open>operator new\<close> is asked for the storage of \<open>n\<close> objects,
  which is the block \<open>Allocate\<close> hands out here.  For an \<open>n\<close> that does not fit the
  header asks for less than the storage of \<open>n\<close> objects, and every use of the block
  beyond them is undefined behaviour: such an \<open>n\<close> is excluded wherever the caller
  chooses the capacity.
\<close>

definition SIZE_MAX :: nat where
  "SIZE_MAX = 2 ^ 64 - 1"

definition alloc_bytes :: "'a traits \<Rightarrow> nat \<Rightarrow> nat" where
  "alloc_bytes tr n = (n * size_of tr) mod (SIZE_MAX + 1)"

definition fits :: "'a traits \<Rightarrow> nat \<Rightarrow> bool" where
  "fits tr n \<longleftrightarrow> 0 < size_of tr \<and> n * size_of tr \<le> SIZE_MAX"

definition Allocate :: "nat \<Rightarrow> ('a world, nat option) M" where
  "Allocate n =
     (if n \<noteq> 0 then
        bnd (attempt BadAlloc) (\<lambda>_ w.
          (Inr (Some (next_block w)),
           w\<lparr>heap := (heap w)(next_block w \<mapsto> replicate n None),
             next_block := Suc (next_block w),
             n_alloc := Suc (n_alloc w)\<rparr>))
      else ret None)"

definition Deallocate :: "nat option \<Rightarrow> ('a world, unit) M" where
  "Deallocate buf = (case buf of None \<Rightarrow> ret ()
     | Some a \<Rightarrow> (\<lambda>w. case heap w a of None \<Rightarrow> (Inl Undefined, w)
         | Some _ \<Rightarrow> (Inr (), w\<lparr>heap := (heap w)(a := None), n_dealloc := Suc (n_dealloc w)\<rparr>)))"

definition RawMemory_default :: RawMemory where
  "RawMemory_default = \<lparr>m_buffer = None, m_capacity = 0\<rparr>"

definition RawMemory_sized :: "nat \<Rightarrow> ('a world, RawMemory) M" where
  "RawMemory_sized capacity = bnd (Allocate capacity) (\<lambda>b. ret \<lparr>m_buffer = b, m_capacity = capacity\<rparr>)"

definition RawMemory_dtor :: "RawMemory \<Rightarrow> ('a world, unit) M" where
  "RawMemory_dtor m = Deallocate (m_buffer m)"

definition GetAddress :: "RawMemory \<Rightarrow> ptr" where
  "GetAddress m = (m_buffer m, 0)"

definition RawMemory_plus :: "RawMemory \<Rightarrow> nat \<Rightarrow> ('a world, ptr) M" where
  "RawMemory_plus m offset = (if offset \<le> m_capacity m then ret (m_buffer m, offset) else throw Undefined)"

definition RawMemory_index :: "RawMemory \<Rightarrow> nat \<Rightarrow> ('a world, ptr) M" where
  "RawMemory_index m index = (if index < m_capacity m then ret (m_buffer m, index) else throw Undefined)"

definition RawMemory_Swap :: "RawMemory \<Rightarrow> RawMemory \<Rightarrow> RawMemory \<times> RawMemory" where
  "RawMemory_Swap m other = (other, m)"

subsection \<open>\<open>Vector\<close>\<close>

text \<open>
  A member function takes the address \<open>this\<close> of its object.  The argument of
  \<open>PushBack\<close>, \<open>EmplaceBack\<close>, \<open>Insert\<close> and \<open>Emplace\<close> is the constructor that makes
  the new element together with the value it makes: \<open>PushBack(const T&)\<close> and
  \<open>Insert(pos, const T&)\<close> pass \<open>CopyCtor\<close>, \<open>PushBack(T&&)\<close> and \<open>Insert(pos, T&&)\<close>
  pass \<open>MoveCtor\<close>.  The argument is an object of the caller's, not an element of the
  vector.
\<close>

type_synonym 'a init = "ctor \<times> 'a"

definition this_get :: "nat \<Rightarrow> ('a world, Vector) M" where
  "this_get this = (\<lambda>w. case objs w this of None \<Rightarrow> (Inl Undefined, w) | Some v \<Rightarrow> (Inr v, w))"

definition this_put :: "nat \<Rightarrow> Vector \<Rightarrow> ('a world, unit) M" where
  "this_put this v = (\<lambda>w. (Inr (), w\<lparr>objs := (objs w)(this \<mapsto> v)\<rparr>))"

definition Vector_begin :: "Vector \<Rightarrow> ptr" where
  "Vector_begin v = GetAddress (m_data v)"

definition Vector_end :: "Vector \<Rightarrow> ptr" where
  "Vector_end v = ptr_add (GetAddress (m_data v)) (m_size v)"

definition Capacity_of :: "Vector \<Rightarrow> nat" where
  "Capacity_of v = m_capacity (m_data v)"

definition Size :: "nat \<Rightarrow> ('a world, nat) M" where
  "Size this = bnd (this_get this) (\<lambda>v. ret (m_size v))"

definition Capacity :: "nat \<Rightarrow> ('a world, nat) M" where
  "Capacity this = bnd (this_get this) (\<lambda>v. ret (Capacity_of v))"

text \<open>\<open>operator[]\<close> returns a reference; \<open>at\<close> reads through it.\<close>

definition Vector_index :: "nat \<Rightarrow> nat \<Rightarrow> ('a world, ptr) M" where
  "Vector_index this index = bnd (this_get this) (\<lambda>v.
     if index < m_size v then RawMemory_index (m_data v) index else throw Undefined)"

definition at :: "nat \<Rightarrow> nat \<Rightarrow> ('a world, 'a) M" where
  "at this index = bnd (Vector_index this index) load"

text \<open>The transplant of the first \<open>n\<close> objects at \<open>src\<close> to \<open>dst\<close>, moved or copied.\<close>

definition transplant :: "'a traits \<Rightarrow> ptr \<Rightarrow> nat \<Rightarrow> ptr \<Rightarrow> ('a world, unit) M" where
  "transplant tr src n dst =
     (if use_move tr then uninitialized_move_n tr src n dst
      else uninitialized_copy_n tr src n dst)"

definition Reserve :: "'a traits \<Rightarrow> nat \<Rightarrow> nat \<Rightarrow> ('a world, unit) M" where
  "Reserve tr this new_capacity = bnd (this_get this) (\<lambda>v.
     if new_capacity \<le> Capacity_of v then ret ()
     else
       bnd (RawMemory_sized new_capacity) (\<lambda>new_data.
       bnd (unwind
              (transplant tr (GetAddress (m_data v)) (m_size v) (GetAddress new_data))
              (RawMemory_dtor new_data)) (\<lambda>_.
       bnd (destroy_n (GetAddress (m_data v)) (m_size v)) (\<lambda>_.
       case RawMemory_Swap (m_data v) new_data of (d, old) \<Rightarrow>
       bnd (this_put this (v\<lparr>m_data := d\<rparr>)) (\<lambda>_.
       RawMemory_dtor old)))))"

definition Swap :: "nat \<Rightarrow> nat \<Rightarrow> ('a world, unit) M" where
  "Swap this other = bnd (this_get this) (\<lambda>v. bnd (this_get other) (\<lambda>ov.
     case RawMemory_Swap (m_data ov) (m_data v) of (od, d) \<Rightarrow>
     bnd (this_put other (ov\<lparr>m_data := od, m_size := m_size v\<rparr>)) (\<lambda>_.
     this_put this (v\<lparr>m_data := d, m_size := m_size ov\<rparr>))))"

definition Resize :: "'a traits \<Rightarrow> nat \<Rightarrow> nat \<Rightarrow> ('a world, unit) M" where
  "Resize tr this new_size =
     bnd (Reserve tr this new_size) (\<lambda>_.
     bnd (this_get this) (\<lambda>v.
     bnd (if new_size < m_size v
          then destroy_n (ptr_add (GetAddress (m_data v)) new_size) (m_size v - new_size)
          else uninitialized_value_construct_n tr
                 (ptr_add (GetAddress (m_data v)) (m_size v)) (new_size - m_size v)) (\<lambda>_.
     this_put this (v\<lparr>m_size := new_size\<rparr>))))"

definition Vector_default :: Vector where
  "Vector_default = \<lparr>m_data = RawMemory_default, m_size = 0\<rparr>"

definition Vector_sized :: "'a traits \<Rightarrow> nat \<Rightarrow> ('a world, Vector) M" where
  "Vector_sized tr sz =
     bnd (RawMemory_sized sz) (\<lambda>d.
     bnd (unwind (uninitialized_value_construct_n tr (GetAddress d) sz) (RawMemory_dtor d)) (\<lambda>_.
     ret \<lparr>m_data = d, m_size = sz\<rparr>))"

definition Vector_copy :: "'a traits \<Rightarrow> Vector \<Rightarrow> ('a world, Vector) M" where
  "Vector_copy tr other =
     bnd (RawMemory_sized (m_size other)) (\<lambda>d.
     bnd (unwind
            (uninitialized_copy_n tr (GetAddress (m_data other)) (m_size other) (GetAddress d))
            (RawMemory_dtor d)) (\<lambda>_.
     ret \<lparr>m_data = d, m_size = m_size other\<rparr>))"

definition Vector_dtor :: "Vector \<Rightarrow> ('a world, unit) M" where
  "Vector_dtor v =
     bnd (destroy_n (GetAddress (m_data v)) (m_size v)) (\<lambda>_. RawMemory_dtor (m_data v))"

definition assign_move :: "nat \<Rightarrow> nat \<Rightarrow> ('a world, unit) M" where
  "assign_move this rhs = (if this \<noteq> rhs then Swap this rhs else ret ())"

definition assign_copy :: "'a traits \<Rightarrow> nat \<Rightarrow> nat \<Rightarrow> ('a world, unit) M" where
  "assign_copy tr this rhs =
     (if this \<noteq> rhs then
        bnd (this_get this) (\<lambda>v. bnd (this_get rhs) (\<lambda>r.
          if m_size r > Capacity_of v then
            bnd (Vector_copy tr r) (\<lambda>tmp.
            bnd (this_put this tmp) (\<lambda>_.
            Vector_dtor v))
          else
            bnd (if m_size r \<le> m_size v then
                   bnd (std_copy (GetAddress (m_data r)) (m_size r) (GetAddress (m_data v))) (\<lambda>_.
                   destroy_n (ptr_add (GetAddress (m_data v)) (m_size r)) (m_size v - m_size r))
                 else
                   bnd (std_copy (GetAddress (m_data r)) (m_size v) (GetAddress (m_data v))) (\<lambda>_.
                   uninitialized_copy_n tr (ptr_add (GetAddress (m_data r)) (m_size v))
                     (m_size r - m_size v) (ptr_add (GetAddress (m_data v)) (m_size v)))) (\<lambda>_.
            this_put this (v\<lparr>m_size := m_size r\<rparr>))))
      else ret ())"

definition PopBack :: "nat \<Rightarrow> ('a world, unit) M" where
  "PopBack this = bnd (this_get this) (\<lambda>v.
     if m_size v = 0 then throw Undefined
     else
       bnd (destroy_at (fst (Vector_end v), snd (Vector_end v) - 1)) (\<lambda>_.
       this_put this (v\<lparr>m_size := m_size v - 1\<rparr>)))"

definition grown :: "nat \<Rightarrow> nat" where
  "grown n = (if n = 0 then 1 else n * 2)"

definition PushBackImpl :: "'a traits \<Rightarrow> nat \<Rightarrow> 'a init \<Rightarrow> ('a world, unit) M" where
  "PushBackImpl tr this value = bnd (this_get this) (\<lambda>v.
     bnd (if m_size v = Capacity_of v then
            bnd (RawMemory_sized (grown (m_size v))) (\<lambda>temp.
            bnd (unwind
                   (bnd (construct_at tr (fst value)
                           (ptr_add (GetAddress temp) (m_size v)) (snd value)) (\<lambda>_.
                    transplant tr (GetAddress (m_data v)) (m_size v) (GetAddress temp)))
                   (RawMemory_dtor temp)) (\<lambda>_.
            bnd (destroy_n (GetAddress (m_data v)) (m_size v)) (\<lambda>_.
            case RawMemory_Swap (m_data v) temp of (d, old) \<Rightarrow>
            bnd (this_put this (v\<lparr>m_data := d\<rparr>)) (\<lambda>_.
            bnd (RawMemory_dtor old) (\<lambda>_. ret d)))))
          else
            bnd (construct_at tr (fst value)
                   (ptr_add (GetAddress (m_data v)) (m_size v)) (snd value)) (\<lambda>_.
            ret (m_data v))) (\<lambda>d.
     this_put this \<lparr>m_data = d, m_size = Suc (m_size v)\<rparr>))"

definition PushBack :: "'a traits \<Rightarrow> nat \<Rightarrow> 'a init \<Rightarrow> ('a world, unit) M" where
  "PushBack tr this value = PushBackImpl tr this value"

definition EmplaceBack :: "'a traits \<Rightarrow> nat \<Rightarrow> 'a init \<Rightarrow> ('a world, ptr) M" where
  "EmplaceBack tr this args = bnd (this_get this) (\<lambda>v.
     bnd (if m_size v = Capacity_of v then
            bnd (RawMemory_sized (grown (m_size v))) (\<lambda>temp.
            bnd (unwind
                   (bnd (construct_at tr (fst args)
                           (ptr_add (GetAddress temp) (m_size v)) (snd args)) (\<lambda>_.
                    transplant tr (GetAddress (m_data v)) (m_size v) (GetAddress temp)))
                   (RawMemory_dtor temp)) (\<lambda>_.
            bnd (destroy_n (GetAddress (m_data v)) (m_size v)) (\<lambda>_.
            case RawMemory_Swap (m_data v) temp of (d, old) \<Rightarrow>
            bnd (this_put this (v\<lparr>m_data := d\<rparr>)) (\<lambda>_.
            bnd (RawMemory_dtor old) (\<lambda>_. ret d)))))
          else
            bnd (construct_at tr (fst args)
                   (ptr_add (GetAddress (m_data v)) (m_size v)) (snd args)) (\<lambda>_.
            ret (m_data v))) (\<lambda>d.
     bnd (this_put this \<lparr>m_data = d, m_size = Suc (m_size v)\<rparr>) (\<lambda>_.
     ret (ptr_add (GetAddress d) (Suc (m_size v) - 1)))))"

text \<open>
  \<open>Emplace\<close> and \<open>Erase\<close> take an iterator \<open>pos\<close> of this vector.  The header computes
  \<open>pos_index = pos_it - begin()\<close> and never checks it; a \<open>pos\<close> that is not in
  \<open>[begin(), end()]\<close> (for \<open>Erase\<close>: not in \<open>[begin(), end())\<close>) is undefined behaviour.
  In the branch that has room and inserts before \<open>end()\<close> the vector is not empty, so
  \<open>end() - 1\<close> is the last element.
\<close>

definition shift_right :: "'a traits \<Rightarrow> Vector \<Rightarrow> ptr \<Rightarrow> 'a \<Rightarrow> ('a world, unit) M" where
  "shift_right tr v pos_it tmp =
     (let last = (fst (Vector_end v), snd (Vector_end v) - 1) in
      if use_move tr then
        bnd (uninitialized_move_n tr last 1 (Vector_end v)) (\<lambda>_.
        bnd (move_backward tr pos_it (snd last - snd pos_it) (Vector_end v)) (\<lambda>_.
        bnd (RawMemory_index (m_data v) (snd pos_it)) (\<lambda>p. assign_at p tmp)))
      else
        bnd (copy_construct tr (Vector_end v) last) (\<lambda>_.
        bnd (uninitialized_copy_n tr last 1 (Vector_end v)) (\<lambda>_.
        bnd (copy_backward pos_it (snd last - snd pos_it) (Vector_end v)) (\<lambda>_.
        bnd (RawMemory_index (m_data v) (snd pos_it)) (\<lambda>p. assign_at p tmp)))))"

definition Emplace :: "'a traits \<Rightarrow> nat \<Rightarrow> ptr \<Rightarrow> 'a init \<Rightarrow> ('a world, ptr) M" where
  "Emplace tr this pos args = bnd (this_get this) (\<lambda>v.
     if fst pos \<noteq> fst (Vector_begin v) \<or> snd pos > m_size v then throw Undefined
     else
       let pos_it = pos; pos_index = snd pos_it - snd (Vector_begin v) in
       if m_size v < Capacity_of v then
         if pos_it = Vector_end v then
           bnd (construct_at tr (fst args) (Vector_end v) (snd args)) (\<lambda>_.
           bnd (this_put this (v\<lparr>m_size := Suc (m_size v)\<rparr>)) (\<lambda>_.
           ret (ptr_add (GetAddress (m_data v)) (Suc (m_size v) - 1))))
         else
           bnd (construct_local tr (fst args)) (\<lambda>_.
           bnd (unwind (shift_right tr v pos_it (snd args)) destroy_local) (\<lambda>_.
           bnd (this_put this (v\<lparr>m_size := Suc (m_size v)\<rparr>)) (\<lambda>_.
           bnd destroy_local (\<lambda>_.
           ret (ptr_add (Vector_begin v) pos_index)))))
       else
         bnd (RawMemory_sized (grown (m_size v))) (\<lambda>temp.
         let new_ptr = GetAddress temp in
         bnd (unwind
                (bnd (construct_at tr (fst args) (ptr_add new_ptr pos_index) (snd args)) (\<lambda>_.
                 bnd (if pos_it \<noteq> Vector_begin v
                      then transplant tr (Vector_begin v) pos_index new_ptr
                      else ret ()) (\<lambda>_.
                 if pos_it \<noteq> Vector_end v
                 then transplant tr pos_it (m_size v - pos_index) (ptr_add new_ptr (pos_index + 1))
                 else ret ())))
                (RawMemory_dtor temp)) (\<lambda>_.
         bnd (destroy_n (Vector_begin v) (m_size v)) (\<lambda>_.
         case RawMemory_Swap (m_data v) temp of (d, old) \<Rightarrow>
         bnd (this_put this (v\<lparr>m_data := d\<rparr>)) (\<lambda>_.
         bnd (this_put this \<lparr>m_data = d, m_size = Suc (m_size v)\<rparr>) (\<lambda>_.
         bnd (RawMemory_dtor old) (\<lambda>_.
         ret (ptr_add (GetAddress d) pos_index))))))))"

definition Erase :: "'a traits \<Rightarrow> nat \<Rightarrow> ptr \<Rightarrow> ('a world, ptr) M" where
  "Erase tr this pos = bnd (this_get this) (\<lambda>v.
     if fst pos \<noteq> fst (Vector_begin v) \<or> snd pos \<ge> m_size v then throw Undefined
     else
       let pos_it = pos; pos_index = snd pos_it - snd (Vector_begin v) in
       bnd (if use_move tr
            then std_move tr (ptr_add pos_it 1) (m_size v - (pos_index + 1)) pos_it
            else std_copy (ptr_add pos_it 1) (m_size v - (pos_index + 1)) pos_it) (\<lambda>_.
       bnd (destroy_at (fst (Vector_end v), snd (Vector_end v) - 1)) (\<lambda>_.
       bnd (this_put this (v\<lparr>m_size := m_size v - 1\<rparr>)) (\<lambda>_.
       ret (ptr_add (Vector_begin v) pos_index)))))"

definition Insert :: "'a traits \<Rightarrow> nat \<Rightarrow> ptr \<Rightarrow> 'a init \<Rightarrow> ('a world, ptr) M" where
  "Insert tr this pos value = Emplace tr this pos value"

text \<open>
  The constructors and the destructor, for an object at the address \<open>this\<close>: a
  constructor needs an address that holds no object, and a constructor that throws
  leaves none.
\<close>

definition construct_Vector :: "nat \<Rightarrow> ('a world, Vector) M \<Rightarrow> ('a world, unit) M" where
  "construct_Vector this init = (\<lambda>w.
     if objs w this \<noteq> None then (Inl Undefined, w) else bnd init (this_put this) w)"

definition Vector_move :: "nat \<Rightarrow> nat \<Rightarrow> ('a world, unit) M" where
  "Vector_move this other =
     bnd (construct_Vector this (ret \<lparr>m_data = RawMemory_default, m_size = 0\<rparr>)) (\<lambda>_.
     Swap this other)"

definition destroy_Vector :: "nat \<Rightarrow> ('a world, unit) M" where
  "destroy_Vector this = bnd (this_get this) (\<lambda>v.
     bnd (Vector_dtor v) (\<lambda>_ w. (Inr (), w\<lparr>objs := (objs w)(this := None)\<rparr>)))"

subsection \<open>What a vector holds\<close>

text \<open>
  The block of a vector, and its elements: the values of the objects in the first
  \<open>m_size\<close> slots.  \<open>nullptr\<close> is a block of no slots.
\<close>

definition blk :: "'a world \<Rightarrow> nat \<Rightarrow> 'a option list" where
  "blk w a = (case heap w a of None \<Rightarrow> [] | Some xs \<Rightarrow> xs)"

definition block :: "'a world \<Rightarrow> RawMemory \<Rightarrow> 'a option list" where
  "block w m = (case m_buffer m of None \<Rightarrow> [] | Some a \<Rightarrow> blk w a)"

definition elems :: "'a world \<Rightarrow> Vector \<Rightarrow> 'a list" where
  "elems w v = map the (take (m_size v) (block w (m_data v)))"

text \<open>
  The invariant of the class: the block has \<open>capacity_\<close> slots, \<open>size_\<close> is at most
  \<open>capacity_\<close>, the slots below \<open>size_\<close> hold objects and the slots from \<open>size_\<close> on hold
  none.  A buffer that is not \<open>nullptr\<close> is a block of the heap.
\<close>

definition valid :: "'a world \<Rightarrow> Vector \<Rightarrow> bool" where
  "valid w v \<longleftrightarrow>
     length (block w (m_data v)) = m_capacity (m_data v) \<and>
     m_size v \<le> m_capacity (m_data v) \<and>
     list_all (\<lambda>c. c \<noteq> None) (take (m_size v) (block w (m_data v))) \<and>
     list_all (\<lambda>c. c = None) (drop (m_size v) (block w (m_data v))) \<and>
     (case m_buffer (m_data v) of None \<Rightarrow> True
      | Some a \<Rightarrow> heap w a \<noteq> None \<and> a < next_block w)"

definition empty_world :: "bool list \<Rightarrow> 'a world" where
  "empty_world s = \<lparr>heap = (\<lambda>_. None), next_block = 0, objs = (\<lambda>_. None), sched = s,
     n_default = 0, n_copy = 0, n_move = 0, n_args = 0, n_dtor = 0, n_alloc = 0, n_dealloc = 0\<rparr>"

text \<open>
  \<open>fill i n f xs\<close> is \<open>xs\<close> with the \<open>n\<close> slots from \<open>i\<close> on replaced by \<open>f\<close> of their
  index: what a loop over a range of slots leaves behind.
\<close>

definition fill :: "nat \<Rightarrow> nat \<Rightarrow> (nat \<Rightarrow> 'b) \<Rightarrow> 'b list \<Rightarrow> 'b list" where
  "fill i n f xs = map (\<lambda>j. if i \<le> j \<and> j < i + n then f j else xs ! j) [0..<length xs]"

text \<open>
  The block a transplant leaves behind: its \<open>n\<close> objects from \<open>i\<close> on are moved from
  when the transplant moves, and untouched when it copies.
\<close>

definition moved_block :: "'a traits \<Rightarrow> nat \<Rightarrow> nat \<Rightarrow> 'a option list \<Rightarrow> 'a option list" where
  "moved_block tr i n xs =
     (if use_move tr then fill i n (\<lambda>j. Some (moved_from tr (the (xs ! j)))) xs else xs)"

subsection \<open>Callers\<close>

text \<open>
  A caller that appends the values of a list in turn, each by the constructor named
  with it: \<open>v.PushBack(x)\<close> for \<open>(CopyCtor, x)\<close>, \<open>v.PushBack(std::move(x))\<close> for
  \<open>(MoveCtor, x)\<close>.
\<close>

fun push_all :: "'a traits \<Rightarrow> nat \<Rightarrow> 'a init list \<Rightarrow> ('a world, unit) M" where
  "push_all tr this [] = ret ()"
| "push_all tr this (a # as) = bnd (PushBack tr this a) (\<lambda>_. push_all tr this as)"

text \<open>
  Two element types of \<open>nat\<close> values: one with a move constructor that may throw and a
  copy constructor, so that every \<open>if constexpr\<close> of the header takes the branch that
  copies, and one with a \<open>noexcept\<close> move constructor.  Both leave 0 in an object that
  has been moved from, and both have objects of eight bytes.
\<close>

definition copying :: "nat traits" where
  "copying = \<lparr>nothrow_move = False, copy_constructible = True, default_value = 0,
     moved_from = (\<lambda>_. 0), size_of = 8\<rparr>"

definition moving :: "nat traits" where
  "moving = \<lparr>nothrow_move = True, copy_constructible = True, default_value = 0,
     moved_from = (\<lambda>_. 0), size_of = 8\<rparr>"

text \<open>
  A world with one vector, at address 0: \<open>[10, 20, 30]\<close> in a block of four slots.
  And one with a full vector: \<open>[10, 20]\<close> in a block of two slots.
\<close>

definition roomy_vector :: Vector where
  "roomy_vector = \<lparr>m_data = \<lparr>m_buffer = Some 0, m_capacity = 4\<rparr>, m_size = 3\<rparr>"

definition roomy_world :: "nat world" where
  "roomy_world = \<lparr>heap = (\<lambda>_. None)(0 \<mapsto> [Some 10, Some 20, Some 30, None]), next_block = 1,
     objs = (\<lambda>_. None)(0 \<mapsto> roomy_vector), sched = [],
     n_default = 0, n_copy = 3, n_move = 0, n_args = 0, n_dtor = 0, n_alloc = 1, n_dealloc = 0\<rparr>"

definition full_vector :: Vector where
  "full_vector = \<lparr>m_data = \<lparr>m_buffer = Some 0, m_capacity = 2\<rparr>, m_size = 2\<rparr>"

definition full_world :: "nat world" where
  "full_world = \<lparr>heap = (\<lambda>_. None)(0 \<mapsto> [Some 10, Some 20]), next_block = 1,
     objs = (\<lambda>_. None)(0 \<mapsto> full_vector), sched = [],
     n_default = 0, n_copy = 2, n_move = 0, n_args = 0, n_dtor = 0, n_alloc = 1, n_dealloc = 0\<rparr>"

text \<open>A world with one default-constructed vector, at address 0, and nothing else.\<close>

definition blank_world :: "nat world" where
  "blank_world = (empty_world [])\<lparr>objs := (\<lambda>_. None)(0 \<mapsto> Vector_default)\<rparr>"

text \<open>
  A run in which a copy constructor throws during a growth transplant.  The set-up
  default-constructs a vector at address 0 and appends 10: \<open>PushBack\<close> allocates a
  block of one slot and copies 10 into it.  The second \<open>PushBack\<close> finds the vector
  full: it allocates a block of two slots, copies 20 into slot 1 of it, and then the
  copy of the element 10 into slot 0 throws.  The schedule says which calls throw: the
  two allocations and the first two copy constructions do not, the third copy
  construction does.
\<close>

definition leak_setup :: "(nat world, unit) M" where
  "leak_setup =
     bnd (construct_Vector 0 (ret Vector_default)) (\<lambda>_.
     PushBack copying 0 (CopyCtor, 10))"

definition leak_run :: "(nat world, unit) M" where
  "leak_run = bnd leak_setup (\<lambda>_. PushBack copying 0 (CopyCtor, 20))"

definition leak_sched :: "bool list" where
  "leak_sched = [False, False, False, False, True]"

text \<open>
  The same failure in \<open>EmplaceBack\<close> and in \<open>Emplace\<close> at \<open>begin()\<close>, whose growth
  branches are written like the one of \<open>PushBackImpl\<close>.
\<close>

definition leak_run_back :: "(nat world, ptr) M" where
  "leak_run_back = bnd leak_setup (\<lambda>_. EmplaceBack copying 0 (ArgsCtor, 20))"

definition leak_run_emplace :: "(nat world, ptr) M" where
  "leak_run_emplace = bnd leak_setup (\<lambda>_. Emplace copying 0 (Some 0, 0) (ArgsCtor, 20))"

text \<open>
  A vector \<open>[10, 20]\<close> in a block of four slots, built by the public operations: one
  allocation and two copy constructions.
\<close>

definition pair_setup :: "(nat world, unit) M" where
  "pair_setup =
     bnd (construct_Vector 0 (ret Vector_default)) (\<lambda>_.
     bnd (Reserve copying 0 4) (\<lambda>_.
     bnd (PushBack copying 0 (CopyCtor, 10)) (\<lambda>_.
     PushBack copying 0 (CopyCtor, 20))))"

text \<open>
  A run in which a copy constructor throws during the transplant of \<open>Reserve\<close>: the
  allocation of the eight slots and the copy of 10 do not throw, the copy of 20 does.
\<close>

definition reserve_run :: "(nat world, unit) M" where
  "reserve_run = bnd pair_setup (\<lambda>_. Reserve copying 0 8)"

definition reserve_sched :: "bool list" where
  "reserve_sched = [False, False, False, False, False, True]"

text \<open>
  A run in which an assignment throws during an insertion that has room.
  \<open>Insert(begin(), 30)\<close> constructs the temporary, copy-constructs the last element
  into slot 2 (twice, as the header does), and the first assignment of
  \<open>std::copy_backward\<close> throws.
\<close>

definition stray_run :: "(nat world, ptr) M" where
  "stray_run = bnd pair_setup (\<lambda>_. Insert copying 0 (Some 0, 0) (CopyCtor, 30))"

definition stray_sched :: "bool list" where
  "stray_sched = [False, False, False, False, False, False, True]"

section \<open>The calls that do not throw\<close>

text \<open>
  With an empty schedule no constructor, no assignment and no allocation throws.  The
  lemmas of this section compute what each primitive and each loop does then, as an
  equation between worlds.
\<close>

subsection \<open>Lists and blocks\<close>

lemma length_fill [simp]: "length (fill i n f xs) = length xs"
  by (simp add: fill_def)

lemma nth_fill: "j < length xs \<Longrightarrow> fill i n f xs ! j = (if i \<le> j \<and> j < i + n then f j else xs ! j)"
  by (simp add: fill_def)

lemma fill_0 [simp]: "fill i 0 f xs = xs"
  by (rule nth_equalityI) (auto simp add: nth_fill)

lemma fill_step: "i < length xs \<Longrightarrow> y = f i \<Longrightarrow> fill (Suc i) n f (xs[i := y]) = fill i (Suc n) f xs"
  by (rule nth_equalityI) (auto simp add: nth_fill nth_list_update)

lemma fill_cong: "(\<And>j. i \<le> j \<Longrightarrow> j < i + n \<Longrightarrow> j < length xs \<Longrightarrow> f j = g j) \<Longrightarrow> fill i n f xs = fill i n g xs"
  by (rule nth_equalityI) (auto simp add: nth_fill)

lemma blk_heap_update [simp]:
  "blk (w\<lparr>heap := h(a \<mapsto> xs)\<rparr>) a' = (if a' = a then xs else blk (w\<lparr>heap := h\<rparr>) a')"
  "blk (w\<lparr>heap := h(a := None)\<rparr>) a' = (if a' = a then [] else blk (w\<lparr>heap := h\<rparr>) a')"
  "blk (w\<lparr>heap := heap w'\<rparr>) a' = blk w' a'"
  by (simp_all add: blk_def)

lemma blk_other_update [simp]:
  "blk (w\<lparr>next_block := nb\<rparr>) a = blk w a"
  "blk (w\<lparr>objs := ob\<rparr>) a = blk w a"
  "blk (w\<lparr>sched := sc\<rparr>) a = blk w a"
  "blk (w\<lparr>n_default := k\<rparr>) a = blk w a"
  "blk (w\<lparr>n_copy := k\<rparr>) a = blk w a"
  "blk (w\<lparr>n_move := k\<rparr>) a = blk w a"
  "blk (w\<lparr>n_args := k\<rparr>) a = blk w a"
  "blk (w\<lparr>n_dtor := k\<rparr>) a = blk w a"
  "blk (w\<lparr>n_alloc := k\<rparr>) a = blk w a"
  "blk (w\<lparr>n_dealloc := k\<rparr>) a = blk w a"
  "blk (count_ctor c w) a = blk w a"
  by (simp_all add: blk_def count_ctor_def split: ctor.splits)

lemma heap_blk_triv: "heap w a \<noteq> None \<Longrightarrow> (heap w)(a \<mapsto> blk w a) = heap w"
  by (auto simp add: blk_def fun_eq_iff)

lemma slot_blk: "slot w (Some a, i) = (if i < length (blk w a) then Some (blk w a ! i) else None)"
  by (simp add: slot_def blk_def split: option.splits)

lemma poke_blk: "i < length (blk w a) \<Longrightarrow> poke (Some a, i) c w = w\<lparr>heap := (heap w)(a \<mapsto> (blk w a)[i := c])\<rparr>"
  by (auto simp add: poke_def blk_def split: option.splits)

lemma ret_apply [simp]: "ret x w = (Inr x, w)" by (simp add: ret_def)
lemma throw_apply [simp]: "throw e w = (Inl e, w)" by (simp add: throw_def)

lemma attempt_ok: "sched w = [] \<Longrightarrow> attempt e w = (Inr (), w)"
  by (simp add: attempt_def)

lemma load_ok: "i < length (blk w a) \<Longrightarrow> blk w a ! i \<noteq> None \<Longrightarrow> load (Some a, i) w = (Inr (the (blk w a ! i)), w)"
  by (auto simp add: load_def slot_blk)

lemma count_ctor_simps [simp]:
  "heap (count_ctor k w) = heap w" "sched (count_ctor k w) = sched w"
  "objs (count_ctor k w) = objs w" "next_block (count_ctor k w) = next_block w"
  "n_dtor (count_ctor k w) = n_dtor w" "n_alloc (count_ctor k w) = n_alloc w"
  "n_dealloc (count_ctor k w) = n_dealloc w"
  by (simp_all add: count_ctor_def split: ctor.splits)

lemma construct_at_ok:
  "sched w = [] \<Longrightarrow> i < length (blk w a) \<Longrightarrow>
   construct_at tr k (Some a, i) x w =
     (Inr (), count_ctor k (w\<lparr>heap := (heap w)(a \<mapsto> (blk w a)[i := Some x])\<rparr>))"
  by (simp add: construct_at_def slot_blk bnd_def attempt_ok poke_blk)

lemma destroy_at_ok:
  "i < length (blk w a) \<Longrightarrow> blk w a ! i \<noteq> None \<Longrightarrow>
   destroy_at (Some a, i) w =
     (Inr (), w\<lparr>heap := (heap w)(a \<mapsto> (blk w a)[i := None]), n_dtor := Suc (n_dtor w)\<rparr>)"
  by (simp add: destroy_at_def bnd_def load_ok poke_blk)

lemma assign_at_ok:
  "sched w = [] \<Longrightarrow> i < length (blk w a) \<Longrightarrow> blk w a ! i \<noteq> None \<Longrightarrow>
   assign_at (Some a, i) x w = (Inr (), w\<lparr>heap := (heap w)(a \<mapsto> (blk w a)[i := Some x])\<rparr>)"
  by (simp add: assign_at_def bnd_def load_ok attempt_ok poke_blk)

lemma destroy_n_ok:
  "heap w a \<noteq> None \<Longrightarrow> i + n \<le> length (blk w a) \<Longrightarrow>
   \<forall>j. i \<le> j \<and> j < i + n \<longrightarrow> blk w a ! j \<noteq> None \<Longrightarrow>
   destroy_n (Some a, i) n w =
     (Inr (), w\<lparr>heap := (heap w)(a \<mapsto> fill i n (\<lambda>_. None) (blk w a)),
               n_dtor := n_dtor w + n\<rparr>)"
proof (induction n arbitrary: i w)
  case 0
  then show ?case by (simp add: heap_blk_triv)
next
  case (Suc n)
  let ?w1 = "w\<lparr>heap := (heap w)(a \<mapsto> (blk w a)[i := None]), n_dtor := Suc (n_dtor w)\<rparr>"
  have 1: "destroy_at (Some a, i) w = (Inr (), ?w1)"
    using Suc.prems by (simp add: destroy_at_ok)
  have 2: "destroy_n (Some a, Suc i) n ?w1 =
     (Inr (), ?w1\<lparr>heap := (heap ?w1)(a \<mapsto> fill (Suc i) n (\<lambda>_. None) (blk ?w1 a)),
               n_dtor := n_dtor ?w1 + n\<rparr>)"
    using Suc.prems by (intro Suc.IH) auto
  have "destroy_n (Some a, i) (Suc n) w = destroy_n (Some a, Suc i) n ?w1"
    by (simp add: bnd_def ptr_add_def 1)
  also note 2
  also have "(Inr (), ?w1\<lparr>heap := (heap ?w1)(a \<mapsto> fill (Suc i) n (\<lambda>_. None) (blk ?w1 a)),
               n_dtor := n_dtor ?w1 + n\<rparr>) =
     (Inr (), w\<lparr>heap := (heap w)(a \<mapsto> fill i (Suc n) (\<lambda>_. None) (blk w a)),
               n_dtor := n_dtor w + Suc n\<rparr>)"
    using Suc.prems by (simp add: fill_step)
  finally show ?case .
qed


lemma copy_construct_ok:
  "sched w = [] \<Longrightarrow> si < length (blk w sa) \<Longrightarrow> blk w sa ! si \<noteq> None \<Longrightarrow>
   di < length (blk w da) \<Longrightarrow>
   copy_construct tr (Some da, di) (Some sa, si) w =
     (Inr (), w\<lparr>heap := (heap w)(da \<mapsto> (blk w da)[di := blk w sa ! si]),
               n_copy := Suc (n_copy w)\<rparr>)"
  by (auto simp add: copy_construct_def bnd_def load_ok construct_at_ok count_ctor_def)

lemma move_construct_ok:
  "sched w = [] \<Longrightarrow> si < length (blk w sa) \<Longrightarrow> blk w sa ! si \<noteq> None \<Longrightarrow>
   di < length (blk w da) \<Longrightarrow> sa \<noteq> da \<Longrightarrow>
   move_construct tr (Some da, di) (Some sa, si) w =
     (Inr (), w\<lparr>heap := (heap w)(da \<mapsto> (blk w da)[di := blk w sa ! si],
                                  sa \<mapsto> (blk w sa)[si := Some (moved_from tr (the (blk w sa ! si)))]),
               n_move := Suc (n_move w)\<rparr>)"
  by (auto simp add: move_construct_def bnd_def load_ok construct_at_ok count_ctor_def poke_blk)

lemma move_construct_same_ok:
  "sched w = [] \<Longrightarrow> si < length (blk w a) \<Longrightarrow> blk w a ! si \<noteq> None \<Longrightarrow>
   di < length (blk w a) \<Longrightarrow>
   move_construct tr (Some a, di) (Some a, si) w =
     (Inr (), w\<lparr>heap := (heap w)(a \<mapsto> (blk w a)[di := blk w a ! si,
                                   si := Some (moved_from tr (the (blk w a ! si)))]),
               n_move := Suc (n_move w)\<rparr>)"
  by (auto simp add: move_construct_def bnd_def load_ok construct_at_ok count_ctor_def poke_blk)

lemma copy_assign_ok:
  "sched w = [] \<Longrightarrow> si < length (blk w a) \<Longrightarrow> blk w a ! si \<noteq> None \<Longrightarrow>
   di < length (blk w a) \<Longrightarrow> blk w a ! di \<noteq> None \<Longrightarrow>
   copy_assign (Some a, di) (Some a, si) w =
     (Inr (), w\<lparr>heap := (heap w)(a \<mapsto> (blk w a)[di := blk w a ! si])\<rparr>)"
  by (auto simp add: copy_assign_def bnd_def load_ok assign_at_ok)

lemma move_assign_ok:
  "sched w = [] \<Longrightarrow> si < length (blk w a) \<Longrightarrow> blk w a ! si \<noteq> None \<Longrightarrow>
   di < length (blk w a) \<Longrightarrow> blk w a ! di \<noteq> None \<Longrightarrow>
   move_assign tr (Some a, di) (Some a, si) w =
     (Inr (), w\<lparr>heap := (heap w)(a \<mapsto> (blk w a)[di := blk w a ! si,
                                   si := Some (moved_from tr (the (blk w a ! si)))])\<rparr>)"
  by (auto simp add: move_assign_def bnd_def load_ok assign_at_ok poke_blk)

lemma Allocate_ok:
  "sched w = [] \<Longrightarrow> n \<noteq> 0 \<Longrightarrow>
   Allocate n w = (Inr (Some (next_block w)),
     w\<lparr>heap := (heap w)(next_block w \<mapsto> replicate n None),
       next_block := Suc (next_block w), n_alloc := Suc (n_alloc w)\<rparr>)"
  by (simp add: Allocate_def bnd_def attempt_ok)

lemma Deallocate_ok:
  "heap w a \<noteq> None \<Longrightarrow>
   Deallocate (Some a) w = (Inr (), w\<lparr>heap := (heap w)(a := None), n_dealloc := Suc (n_dealloc w)\<rparr>)"
  by (auto simp add: Deallocate_def)


lemma uninit_copy_loop_ok:
  "sched w = [] \<Longrightarrow> sa \<noteq> da \<Longrightarrow> heap w da \<noteq> None \<Longrightarrow>
   si + i + n \<le> length (blk w sa) \<Longrightarrow> di + i + n \<le> length (blk w da) \<Longrightarrow>
   \<forall>j. si + i \<le> j \<and> j < si + i + n \<longrightarrow> blk w sa ! j \<noteq> None \<Longrightarrow>
   uninit_copy_loop tr (Some sa, si) (Some da, di) i n w =
     (Inr (), w\<lparr>heap := (heap w)(da \<mapsto> fill (di + i) n (\<lambda>j. blk w sa ! (si + (j - di))) (blk w da)),
               n_copy := n_copy w + n\<rparr>)"
proof (induction n arbitrary: i w)
  case 0
  then show ?case by (simp add: heap_blk_triv)
next
  case (Suc n)
  let ?w1 = "w\<lparr>heap := (heap w)(da \<mapsto> (blk w da)[di + i := blk w sa ! (si + i)]),
               n_copy := Suc (n_copy w)\<rparr>"
  have 1: "copy_construct tr (Some da, di + i) (Some sa, si + i) w = (Inr (), ?w1)"
    using Suc.prems by (simp add: copy_construct_ok)
  have 2: "uninit_copy_loop tr (Some sa, si) (Some da, di) (Suc i) n ?w1 =
     (Inr (), ?w1\<lparr>heap := (heap ?w1)(da \<mapsto> fill (di + Suc i) n (\<lambda>j. blk ?w1 sa ! (si + (j - di))) (blk ?w1 da)),
               n_copy := n_copy ?w1 + n\<rparr>)"
    using Suc.prems by (intro Suc.IH) auto
  have "uninit_copy_loop tr (Some sa, si) (Some da, di) i (Suc n) w =
        uninit_copy_loop tr (Some sa, si) (Some da, di) (Suc i) n ?w1"
    by (simp add: bnd_def unwind_def ptr_add_def 1)
  also note 2
  also have "(Inr (), ?w1\<lparr>heap := (heap ?w1)(da \<mapsto> fill (di + Suc i) n (\<lambda>j. blk ?w1 sa ! (si + (j - di))) (blk ?w1 da)),
               n_copy := n_copy ?w1 + n\<rparr>) =
     (Inr (), w\<lparr>heap := (heap w)(da \<mapsto> fill (di + i) (Suc n) (\<lambda>j. blk w sa ! (si + (j - di))) (blk w da)),
               n_copy := n_copy w + Suc n\<rparr>)"
    using Suc.prems by (simp add: fill_step)
  finally show ?case .
qed

lemma uninit_value_loop_ok:
  "sched w = [] \<Longrightarrow> heap w a \<noteq> None \<Longrightarrow> p + i + n \<le> length (blk w a) \<Longrightarrow>
   uninit_value_loop tr (Some a, p) i n w =
     (Inr (), w\<lparr>heap := (heap w)(a \<mapsto> fill (p + i) n (\<lambda>_. Some (default_value tr)) (blk w a)),
               n_default := n_default w + n\<rparr>)"
proof (induction n arbitrary: i w)
  case 0
  then show ?case by (simp add: heap_blk_triv)
next
  case (Suc n)
  let ?w1 = "w\<lparr>heap := (heap w)(a \<mapsto> (blk w a)[p + i := Some (default_value tr)]),
               n_default := Suc (n_default w)\<rparr>"
  have 1: "construct_at tr DefaultCtor (Some a, p + i) (default_value tr) w = (Inr (), ?w1)"
    using Suc.prems by (simp add: construct_at_ok count_ctor_def)
  have 2: "uninit_value_loop tr (Some a, p) (Suc i) n ?w1 =
     (Inr (), ?w1\<lparr>heap := (heap ?w1)(a \<mapsto> fill (p + Suc i) n (\<lambda>_. Some (default_value tr)) (blk ?w1 a)),
               n_default := n_default ?w1 + n\<rparr>)"
    using Suc.prems by (intro Suc.IH) auto
  have "uninit_value_loop tr (Some a, p) i (Suc n) w = uninit_value_loop tr (Some a, p) (Suc i) n ?w1"
    by (simp add: bnd_def unwind_def ptr_add_def 1)
  also note 2
  also have "(Inr (), ?w1\<lparr>heap := (heap ?w1)(a \<mapsto> fill (p + Suc i) n (\<lambda>_. Some (default_value tr)) (blk ?w1 a)),
               n_default := n_default ?w1 + n\<rparr>) =
     (Inr (), w\<lparr>heap := (heap w)(a \<mapsto> fill (p + i) (Suc n) (\<lambda>_. Some (default_value tr)) (blk w a)),
               n_default := n_default w + Suc n\<rparr>)"
    using Suc.prems by (simp add: fill_step)
  finally show ?case .
qed


lemma heap_blk_triv2:
  "heap w a \<noteq> None \<Longrightarrow> heap w b \<noteq> None \<Longrightarrow> (heap w)(a \<mapsto> blk w a, b \<mapsto> blk w b) = heap w"
  by (auto simp add: blk_def fun_eq_iff)


lemma uninit_move_loop_ok:
  "sched w = [] \<Longrightarrow> sa \<noteq> da \<Longrightarrow> heap w da \<noteq> None \<Longrightarrow> heap w sa \<noteq> None \<Longrightarrow>
   si + i + n \<le> length (blk w sa) \<Longrightarrow> di + i + n \<le> length (blk w da) \<Longrightarrow>
   \<forall>j. si + i \<le> j \<and> j < si + i + n \<longrightarrow> blk w sa ! j \<noteq> None \<Longrightarrow>
   uninit_move_loop tr (Some sa, si) (Some da, di) i n w =
     (Inr (), w\<lparr>heap := (heap w)
                 (da \<mapsto> fill (di + i) n (\<lambda>j. blk w sa ! (si + (j - di))) (blk w da),
                  sa \<mapsto> fill (si + i) n (\<lambda>j. Some (moved_from tr (the (blk w sa ! j)))) (blk w sa)),
               n_move := n_move w + n\<rparr>)"
proof (induction n arbitrary: i w)
  case 0
  then show ?case
    apply (simp add: heap_blk_triv2 del: fun_upd_apply)
    done
next
  case (Suc n)
  let ?db1 = "(blk w da)[di + i := blk w sa ! (si + i)]"
  let ?sb1 = "(blk w sa)[si + i := Some (moved_from tr (the (blk w sa ! (si + i))))]"
  let ?w1 = "w\<lparr>heap := (heap w)(da \<mapsto> ?db1, sa \<mapsto> ?sb1), n_move := Suc (n_move w)\<rparr>"
  have 1: "move_construct tr (Some da, di + i) (Some sa, si + i) w = (Inr (), ?w1)"
    using Suc.prems by (simp add: move_construct_ok)
  have 2: "uninit_move_loop tr (Some sa, si) (Some da, di) (Suc i) n ?w1 =
     (Inr (), ?w1\<lparr>heap := (heap ?w1)
                 (da \<mapsto> fill (di + Suc i) n (\<lambda>j. blk ?w1 sa ! (si + (j - di))) (blk ?w1 da),
                  sa \<mapsto> fill (si + Suc i) n (\<lambda>j. Some (moved_from tr (the (blk ?w1 sa ! j)))) (blk ?w1 sa)),
               n_move := n_move ?w1 + n\<rparr>)"
    using Suc.prems by (intro Suc.IH) (auto simp add: nth_list_update)
  have L1: "fill (di + Suc i) n (\<lambda>j. ?sb1 ! (si + (j - di))) ?db1 =
            fill (di + i) (Suc n) (\<lambda>j. blk w sa ! (si + (j - di))) (blk w da)"
    using Suc.prems by (intro nth_equalityI) (auto simp add: nth_fill nth_list_update)
  have L2: "fill (si + Suc i) n (\<lambda>j. Some (moved_from tr (the (?sb1 ! j)))) ?sb1 =
            fill (si + i) (Suc n) (\<lambda>j. Some (moved_from tr (the (blk w sa ! j)))) (blk w sa)"
    using Suc.prems by (intro nth_equalityI) (auto simp add: nth_fill nth_list_update)
  have "uninit_move_loop tr (Some sa, si) (Some da, di) i (Suc n) w =
        uninit_move_loop tr (Some sa, si) (Some da, di) (Suc i) n ?w1"
    by (simp add: bnd_def unwind_def ptr_add_def 1)
  also note 2
  also have "(Inr (), ?w1\<lparr>heap := (heap ?w1)
                 (da \<mapsto> fill (di + Suc i) n (\<lambda>j. blk ?w1 sa ! (si + (j - di))) (blk ?w1 da),
                  sa \<mapsto> fill (si + Suc i) n (\<lambda>j. Some (moved_from tr (the (blk ?w1 sa ! j)))) (blk ?w1 sa)),
               n_move := n_move ?w1 + n\<rparr>) =
     (Inr (), w\<lparr>heap := (heap w)
                 (da \<mapsto> fill (di + i) (Suc n) (\<lambda>j. blk w sa ! (si + (j - di))) (blk w da),
                  sa \<mapsto> fill (si + i) (Suc n) (\<lambda>j. Some (moved_from tr (the (blk w sa ! j)))) (blk w sa)),
               n_move := n_move w + Suc n\<rparr>)"
    using Suc.prems(2) L1 L2 by (simp add: fun_upd_twist)
  finally show ?case .
qed


lemma nat_pinch: "\<not> Suc d \<le> i \<Longrightarrow> d \<le> i \<Longrightarrow> i = d"
  by simp

lemma std_copy_left_ok:
  "sched w = [] \<Longrightarrow> heap w a \<noteq> None \<Longrightarrow> Suc (d + n) \<le> length (blk w a) \<Longrightarrow>
   \<forall>j. d \<le> j \<and> j \<le> d + n \<longrightarrow> blk w a ! j \<noteq> None \<Longrightarrow>
   std_copy (Some a, Suc d) n (Some a, d) w =
     (Inr (), w\<lparr>heap := (heap w)(a \<mapsto> fill d n (\<lambda>j. blk w a ! Suc j) (blk w a))\<rparr>)"
proof (induction n arbitrary: d w)
  case 0
  then show ?case by (simp add: heap_blk_triv del: fun_upd_apply)
next
  case (Suc n)
  let ?b1 = "(blk w a)[d := blk w a ! Suc d]"
  let ?w1 = "w\<lparr>heap := (heap w)(a \<mapsto> ?b1)\<rparr>"
  have 1: "copy_assign (Some a, d) (Some a, Suc d) w = (Inr (), ?w1)"
    using Suc.prems by (simp add: copy_assign_ok)
  have 2: "std_copy (Some a, Suc (Suc d)) n (Some a, Suc d) ?w1 =
     (Inr (), ?w1\<lparr>heap := (heap ?w1)(a \<mapsto> fill (Suc d) n (\<lambda>j. blk ?w1 a ! Suc j) (blk ?w1 a))\<rparr>)"
    using Suc.prems by (intro Suc.IH) (auto simp add: nth_list_update)
  have L: "fill (Suc d) n (\<lambda>j. ?b1 ! Suc j) ?b1 = fill d (Suc n) (\<lambda>j. blk w a ! Suc j) (blk w a)"
    using Suc.prems by (intro nth_equalityI) (auto simp add: nth_fill nth_list_update)
  have "std_copy (Some a, Suc d) (Suc n) (Some a, d) w =
        std_copy (Some a, Suc (Suc d)) n (Some a, Suc d) ?w1"
    by (simp add: bnd_def ptr_add_def 1)
  also note 2
  also have "(Inr (), ?w1\<lparr>heap := (heap ?w1)(a \<mapsto> fill (Suc d) n (\<lambda>j. blk ?w1 a ! Suc j) (blk ?w1 a))\<rparr>) =
     (Inr (), w\<lparr>heap := (heap w)(a \<mapsto> fill d (Suc n) (\<lambda>j. blk w a ! Suc j) (blk w a))\<rparr>)"
    using L by (simp del: fun_upd_apply)
  finally show ?case .
qed

lemma std_move_left_ok:
  "sched w = [] \<Longrightarrow> heap w a \<noteq> None \<Longrightarrow> Suc (d + Suc n) \<le> length (blk w a) \<Longrightarrow>
   \<forall>j. d \<le> j \<and> j \<le> d + Suc n \<longrightarrow> blk w a ! j \<noteq> None \<Longrightarrow>
   std_move tr (Some a, Suc d) (Suc n) (Some a, d) w =
     (Inr (), w\<lparr>heap := (heap w)(a \<mapsto> (fill d (Suc n) (\<lambda>j. blk w a ! Suc j) (blk w a))
        [d + Suc n := Some (moved_from tr (the (blk w a ! (d + Suc n))))])\<rparr>)"
proof (induction n arbitrary: d w)
  case 0
  let ?b1 = "(blk w a)[d := blk w a ! Suc d, Suc d := Some (moved_from tr (the (blk w a ! Suc d)))]"
  have 1: "move_assign tr (Some a, d) (Some a, Suc d) w = (Inr (), w\<lparr>heap := (heap w)(a \<mapsto> ?b1)\<rparr>)"
    using 0 by (simp add: move_assign_ok)
  have L: "?b1 = (fill d (Suc 0) (\<lambda>j. blk w a ! Suc j) (blk w a))
        [d + Suc 0 := Some (moved_from tr (the (blk w a ! (d + Suc 0))))]"
    using 0 by (intro nth_equalityI) (auto simp add: nth_fill nth_list_update dest: nat_pinch)
  have "std_move tr (Some a, Suc d) (Suc 0) (Some a, d) w = (Inr (), w\<lparr>heap := (heap w)(a \<mapsto> ?b1)\<rparr>)"
    by (simp add: bnd_def ptr_add_def 1)
  also have "(Inr (), w\<lparr>heap := (heap w)(a \<mapsto> ?b1)\<rparr>) =
     (Inr (), w\<lparr>heap := (heap w)(a \<mapsto> (fill d (Suc 0) (\<lambda>j. blk w a ! Suc j) (blk w a))
        [d + Suc 0 := Some (moved_from tr (the (blk w a ! (d + Suc 0))))])\<rparr>)"
    by (simp only: L [symmetric])
  finally show ?case .
next
  case (Suc n)
  let ?b1 = "(blk w a)[d := blk w a ! Suc d, Suc d := Some (moved_from tr (the (blk w a ! Suc d)))]"
  let ?w1 = "w\<lparr>heap := (heap w)(a \<mapsto> ?b1)\<rparr>"
  have 1: "move_assign tr (Some a, d) (Some a, Suc d) w = (Inr (), ?w1)"
    using Suc.prems by (simp add: move_assign_ok)
  have 2: "std_move tr (Some a, Suc (Suc d)) (Suc n) (Some a, Suc d) ?w1 =
     (Inr (), ?w1\<lparr>heap := (heap ?w1)(a \<mapsto> (fill (Suc d) (Suc n) (\<lambda>j. blk ?w1 a ! Suc j) (blk ?w1 a))
        [Suc d + Suc n := Some (moved_from tr (the (blk ?w1 a ! (Suc d + Suc n))))])\<rparr>)"
    using Suc.prems by (intro Suc.IH) (auto simp add: nth_list_update)
  have L: "(fill (Suc d) (Suc n) (\<lambda>j. ?b1 ! Suc j) ?b1)
        [Suc d + Suc n := Some (moved_from tr (the (?b1 ! (Suc d + Suc n))))]
       = (fill d (Suc (Suc n)) (\<lambda>j. blk w a ! Suc j) (blk w a))
        [d + Suc (Suc n) := Some (moved_from tr (the (blk w a ! (d + Suc (Suc n)))))]"
    using Suc.prems by (intro nth_equalityI) (auto simp add: nth_fill nth_list_update dest: nat_pinch)
  have "std_move tr (Some a, Suc d) (Suc (Suc n)) (Some a, d) w =
        std_move tr (Some a, Suc (Suc d)) (Suc n) (Some a, Suc d) ?w1"
    by (subst std_move.simps) (simp add: bnd_def ptr_add_def 1 del: std_move.simps)
  also note 2
  also have "(Inr (), ?w1\<lparr>heap := (heap ?w1)(a \<mapsto> (fill (Suc d) (Suc n) (\<lambda>j. blk ?w1 a ! Suc j) (blk ?w1 a))
        [Suc d + Suc n := Some (moved_from tr (the (blk ?w1 a ! (Suc d + Suc n))))])\<rparr>) =
     (Inr (), w\<lparr>heap := (heap w)(a \<mapsto> (fill d (Suc (Suc n)) (\<lambda>j. blk w a ! Suc j) (blk w a))
        [d + Suc (Suc n) := Some (moved_from tr (the (blk w a ! (d + Suc (Suc n)))))])\<rparr>)"
    using L by (simp del: fun_upd_apply)
  finally show ?case .
qed


lemma copy_backward_ok:
  "sched w = [] \<Longrightarrow> heap w a \<noteq> None \<Longrightarrow> Suc (p + n) \<le> length (blk w a) \<Longrightarrow>
   \<forall>j. p \<le> j \<and> j \<le> p + n \<longrightarrow> blk w a ! j \<noteq> None \<Longrightarrow>
   copy_backward (Some a, p) n (Some a, Suc (p + n)) w =
     (Inr (), w\<lparr>heap := (heap w)(a \<mapsto> fill (Suc p) n (\<lambda>j. blk w a ! (j - 1)) (blk w a))\<rparr>)"
proof (induction n arbitrary: w)
  case 0
  then show ?case by (simp add: heap_blk_triv del: fun_upd_apply)
next
  case (Suc n)
  let ?b1 = "(blk w a)[Suc (p + n) := blk w a ! (p + n)]"
  let ?w1 = "w\<lparr>heap := (heap w)(a \<mapsto> ?b1)\<rparr>"
  have 1: "copy_assign (Some a, Suc (p + n)) (Some a, p + n) w = (Inr (), ?w1)"
    using Suc.prems by (simp add: copy_assign_ok)
  have 2: "copy_backward (Some a, p) n (Some a, Suc (p + n)) ?w1 =
     (Inr (), ?w1\<lparr>heap := (heap ?w1)(a \<mapsto> fill (Suc p) n (\<lambda>j. blk ?w1 a ! (j - 1)) (blk ?w1 a))\<rparr>)"
    using Suc.prems by (intro Suc.IH) (auto simp add: nth_list_update)
  have L: "fill (Suc p) n (\<lambda>j. ?b1 ! (j - 1)) ?b1 = fill (Suc p) (Suc n) (\<lambda>j. blk w a ! (j - 1)) (blk w a)"
    using Suc.prems by (intro nth_equalityI) (auto simp add: nth_fill nth_list_update)
  have "copy_backward (Some a, p) (Suc n) (Some a, Suc (p + Suc n)) w =
        copy_backward (Some a, p) n (Some a, Suc (p + n)) ?w1"
    by (subst copy_backward.simps) (simp add: bnd_def ptr_add_def 1 del: copy_backward.simps)
  also note 2
  also have "(Inr (), ?w1\<lparr>heap := (heap ?w1)(a \<mapsto> fill (Suc p) n (\<lambda>j. blk ?w1 a ! (j - 1)) (blk ?w1 a))\<rparr>) =
     (Inr (), w\<lparr>heap := (heap w)(a \<mapsto> fill (Suc p) (Suc n) (\<lambda>j. blk w a ! (j - 1)) (blk w a))\<rparr>)"
    using L by (simp del: fun_upd_apply)
  finally show ?case .
qed

lemma move_backward_ok:
  "sched w = [] \<Longrightarrow> heap w a \<noteq> None \<Longrightarrow> Suc (p + Suc n) \<le> length (blk w a) \<Longrightarrow>
   \<forall>j. p \<le> j \<and> j \<le> p + Suc n \<longrightarrow> blk w a ! j \<noteq> None \<Longrightarrow>
   move_backward tr (Some a, p) (Suc n) (Some a, Suc (p + Suc n)) w =
     (Inr (), w\<lparr>heap := (heap w)(a \<mapsto> (fill (Suc p) (Suc n) (\<lambda>j. blk w a ! (j - 1)) (blk w a))
        [p := Some (moved_from tr (the (blk w a ! p)))])\<rparr>)"
proof (induction n arbitrary: w)
  case 0
  let ?b1 = "(blk w a)[Suc p := blk w a ! p, p := Some (moved_from tr (the (blk w a ! p)))]"
  have 1: "move_assign tr (Some a, Suc p) (Some a, p) w = (Inr (), w\<lparr>heap := (heap w)(a \<mapsto> ?b1)\<rparr>)"
    using 0 by (simp add: move_assign_ok)
  have L: "?b1 = (fill (Suc p) (Suc 0) (\<lambda>j. blk w a ! (j - 1)) (blk w a))
        [p := Some (moved_from tr (the (blk w a ! p)))]"
    using 0 by (intro nth_equalityI) (auto simp add: nth_fill nth_list_update)
  have "move_backward tr (Some a, p) (Suc 0) (Some a, Suc (p + Suc 0)) w =
     (Inr (), w\<lparr>heap := (heap w)(a \<mapsto> ?b1)\<rparr>)"
    by (simp add: bnd_def ptr_add_def 1)
  also have "(Inr (), w\<lparr>heap := (heap w)(a \<mapsto> ?b1)\<rparr>) =
     (Inr (), w\<lparr>heap := (heap w)(a \<mapsto> (fill (Suc p) (Suc 0) (\<lambda>j. blk w a ! (j - 1)) (blk w a))
        [p := Some (moved_from tr (the (blk w a ! p)))])\<rparr>)"
    by (simp only: L [symmetric])
  finally show ?case .
next
  case (Suc n)
  let ?b1 = "(blk w a)[Suc (Suc (p + n)) := blk w a ! Suc (p + n),
               Suc (p + n) := Some (moved_from tr (the (blk w a ! Suc (p + n))))]"
  let ?w1 = "w\<lparr>heap := (heap w)(a \<mapsto> ?b1)\<rparr>"
  have 1: "move_assign tr (Some a, Suc (Suc (p + n))) (Some a, Suc (p + n)) w = (Inr (), ?w1)"
    using Suc.prems by (simp add: move_assign_ok)
  have 2: "move_backward tr (Some a, p) (Suc n) (Some a, Suc (p + Suc n)) ?w1 =
     (Inr (), ?w1\<lparr>heap := (heap ?w1)(a \<mapsto> (fill (Suc p) (Suc n) (\<lambda>j. blk ?w1 a ! (j - 1)) (blk ?w1 a))
        [p := Some (moved_from tr (the (blk ?w1 a ! p)))])\<rparr>)"
    using Suc.prems by (intro Suc.IH) (auto simp add: nth_list_update)
  have L: "(fill (Suc p) (Suc n) (\<lambda>j. ?b1 ! (j - 1)) ?b1)[p := Some (moved_from tr (the (?b1 ! p)))]
       = (fill (Suc p) (Suc (Suc n)) (\<lambda>j. blk w a ! (j - 1)) (blk w a))
        [p := Some (moved_from tr (the (blk w a ! p)))]"
    using Suc.prems by (intro nth_equalityI) (auto simp add: nth_fill nth_list_update)
  have "move_backward tr (Some a, p) (Suc (Suc n)) (Some a, Suc (p + Suc (Suc n))) w =
        move_backward tr (Some a, p) (Suc n) (Some a, Suc (p + Suc n)) ?w1"
    by (subst move_backward.simps) (simp add: bnd_def ptr_add_def 1 del: move_backward.simps)
  also note 2
  also have "(Inr (), ?w1\<lparr>heap := (heap ?w1)(a \<mapsto> (fill (Suc p) (Suc n) (\<lambda>j. blk ?w1 a ! (j - 1)) (blk ?w1 a))
        [p := Some (moved_from tr (the (blk ?w1 a ! p)))])\<rparr>) =
     (Inr (), w\<lparr>heap := (heap w)(a \<mapsto> (fill (Suc p) (Suc (Suc n)) (\<lambda>j. blk w a ! (j - 1)) (blk w a))
        [p := Some (moved_from tr (the (blk w a ! p)))])\<rparr>)"
    using L by (simp del: fun_upd_apply)
  finally show ?case .
qed

subsection \<open>The invariant, and \<open>Reserve\<close>\<close>

lemma list_all_take_iff: "list_all P (take k xs) \<longleftrightarrow> (\<forall>j. j < k \<and> j < length xs \<longrightarrow> P (xs ! j))"
  by (auto simp add: list_all_length)

lemma list_all_drop_iff: "list_all P (drop k xs) \<longleftrightarrow> (\<forall>j. k \<le> j \<and> j < length xs \<longrightarrow> P (xs ! j))"
proof
  assume L: "list_all P (drop k xs)"
  show "\<forall>j. k \<le> j \<and> j < length xs \<longrightarrow> P (xs ! j)"
  proof (intro allI impI)
    fix j assume j: "k \<le> j \<and> j < length xs"
    then have "j - k < length (drop k xs)" by auto
    with L have "P (drop k xs ! (j - k))" by (simp add: list_all_length)
    with j show "P (xs ! j)" by simp
  qed
next
  assume "\<forall>j. k \<le> j \<and> j < length xs \<longrightarrow> P (xs ! j)"
  then show "list_all P (drop k xs)" by (simp add: list_all_length)
qed

lemma valid_iff:
  "valid w v \<longleftrightarrow>
     length (block w (m_data v)) = m_capacity (m_data v) \<and>
     m_size v \<le> m_capacity (m_data v) \<and>
     (\<forall>j. j < m_size v \<longrightarrow> block w (m_data v) ! j \<noteq> None) \<and>
     (\<forall>j. m_size v \<le> j \<and> j < m_capacity (m_data v) \<longrightarrow> block w (m_data v) ! j = None) \<and>
     (case m_buffer (m_data v) of None \<Rightarrow> True
      | Some a \<Rightarrow> heap w a \<noteq> None \<and> a < next_block w)"
  unfolding valid_def list_all_take_iff list_all_drop_iff
  by (cases "m_buffer (m_data v)") auto

lemma valid_null:
  "valid w v \<Longrightarrow> m_buffer (m_data v) = None \<Longrightarrow> m_capacity (m_data v) = 0 \<and> m_size v = 0"
  by (auto simp add: valid_def block_def)

lemma valid_block:
  assumes "valid w v" "m_buffer (m_data v) = Some a"
  shows "length (blk w a) = m_capacity (m_data v)" "m_size v \<le> m_capacity (m_data v)"
    "heap w a \<noteq> None" "a < next_block w"
    "\<And>j. j < m_size v \<Longrightarrow> blk w a ! j \<noteq> None"
    "\<And>j. m_size v \<le> j \<Longrightarrow> j < m_capacity (m_data v) \<Longrightarrow> blk w a ! j = None"
  using assms by (auto simp add: valid_iff block_def)

lemma validI:
  assumes "m_buffer (m_data v) = Some a" "length (blk w a) = m_capacity (m_data v)"
    "m_size v \<le> m_capacity (m_data v)" "heap w a \<noteq> None" "a < next_block w"
    "\<And>j. j < m_size v \<Longrightarrow> blk w a ! j \<noteq> None"
    "\<And>j. m_size v \<le> j \<Longrightarrow> j < m_capacity (m_data v) \<Longrightarrow> blk w a ! j = None"
  shows "valid w v"
  using assms unfolding valid_iff by (auto simp add: block_def)

lemma elems_nth:
  "valid w v \<Longrightarrow> m_buffer (m_data v) = Some a \<Longrightarrow> j < m_size v \<Longrightarrow>
   elems w v ! j = the (blk w a ! j)"
  by (simp add: elems_def block_def valid_iff)

lemma length_elems: "valid w v \<Longrightarrow> length (elems w v) = m_size v"
  by (auto simp add: elems_def valid_def)

lemma this_get_ok: "objs w this = Some v \<Longrightarrow> this_get this w = (Inr v, w)"
  by (simp add: this_get_def)

lemma length_moved_block [simp]: "length (moved_block tr i n xs) = length xs"
  by (simp add: moved_block_def)

lemma moved_block_live:
  "j < length xs \<Longrightarrow> (moved_block tr i n xs ! j \<noteq> None) = (xs ! j \<noteq> None \<or> (use_move tr \<and> i \<le> j \<and> j < i + n))"
  by (auto simp add: moved_block_def nth_fill)

lemma moved_block_outside:
  "j < length xs \<Longrightarrow> \<not> (i \<le> j \<and> j < i + n) \<Longrightarrow> moved_block tr i n xs ! j = xs ! j"
  by (auto simp add: moved_block_def nth_fill)

lemma transplant_ok:
  assumes "sched w = []" "sa \<noteq> da" "heap w da \<noteq> None" "heap w sa \<noteq> None"
    "si + n \<le> length (blk w sa)" "di + n \<le> length (blk w da)"
    "\<forall>j. si \<le> j \<and> j < si + n \<longrightarrow> blk w sa ! j \<noteq> None"
  shows "transplant tr (Some sa, si) n (Some da, di) w =
     (Inr (), w\<lparr>heap := (heap w)
                 (da \<mapsto> fill di n (\<lambda>j. blk w sa ! (si + (j - di))) (blk w da),
                  sa \<mapsto> moved_block tr si n (blk w sa)),
               n_copy := n_copy w + (if use_move tr then 0 else n),
               n_move := n_move w + (if use_move tr then n else 0)\<rparr>)"
proof (cases "use_move tr")
  case True
  then show ?thesis
    using assms uninit_move_loop_ok[of w sa da si 0 n di tr]
    by (simp add: transplant_def uninitialized_move_n_def moved_block_def del: fun_upd_apply)
next
  case False
  have "(heap w)(da \<mapsto> fill di n (\<lambda>j. blk w sa ! (si + (j - di))) (blk w da), sa \<mapsto> blk w sa)
      = (heap w)(da \<mapsto> fill di n (\<lambda>j. blk w sa ! (si + (j - di))) (blk w da))"
    using assms(2,4) by (auto simp add: fun_eq_iff blk_def)
  with False show ?thesis
    using assms uninit_copy_loop_ok[of w sa da si 0 n di tr]
    by (simp add: transplant_def uninitialized_copy_n_def moved_block_def del: fun_upd_apply)
qed


lemma RawMemory_sized_ok:
  "sched w = [] \<Longrightarrow> n \<noteq> 0 \<Longrightarrow>
   RawMemory_sized n w = (Inr \<lparr>m_buffer = Some (next_block w), m_capacity = n\<rparr>,
     w\<lparr>heap := (heap w)(next_block w \<mapsto> replicate n None),
       next_block := Suc (next_block w), n_alloc := Suc (n_alloc w)\<rparr>)"
  by (simp add: RawMemory_sized_def bnd_def Allocate_ok)

lemma Reserve_noop:
  "objs w this = Some v \<Longrightarrow> c \<le> Capacity_of v \<Longrightarrow> Reserve tr this c w = (Inr (), w)"
  by (simp add: Reserve_def bnd_def this_get_ok)

lemma Reserve_grow_null:
  assumes "sched w = []" "objs w this = Some v" "valid w v" "Capacity_of v < c"
    "m_buffer (m_data v) = None"
  shows "Reserve tr this c w = (Inr (),
     w\<lparr>heap := (heap w)(next_block w \<mapsto> replicate c None),
       next_block := Suc (next_block w),
       objs := (objs w)(this \<mapsto> v\<lparr>m_data := \<lparr>m_buffer = Some (next_block w), m_capacity = c\<rparr>\<rparr>),
       n_alloc := Suc (n_alloc w)\<rparr>)"
proof -
  have z: "m_size v = 0" "m_capacity (m_data v) = 0"
    using valid_null[OF assms(3,5)] by simp_all
  show ?thesis
    using assms z
    by (simp add: Reserve_def bnd_def unwind_def this_get_ok RawMemory_sized_ok Capacity_of_def
        transplant_def uninitialized_move_n_def uninitialized_copy_n_def GetAddress_def
        RawMemory_Swap_def this_put_def RawMemory_dtor_def Deallocate_def)
qed

lemma Reserve_grow_block:
  assumes "sched w = []" "objs w this = Some v" "valid w v" "Capacity_of v < c"
    "m_buffer (m_data v) = Some a"
  shows "Reserve tr this c w = (Inr (),
     w\<lparr>heap := (heap w)(next_block w \<mapsto> fill 0 (m_size v) (\<lambda>j. blk w a ! j) (replicate c None),
                         a := None),
       next_block := Suc (next_block w),
       objs := (objs w)(this \<mapsto> v\<lparr>m_data := \<lparr>m_buffer = Some (next_block w), m_capacity = c\<rparr>\<rparr>),
       n_copy := n_copy w + (if use_move tr then 0 else m_size v),
       n_move := n_move w + (if use_move tr then m_size v else 0),
       n_dtor := n_dtor w + m_size v,
       n_alloc := Suc (n_alloc w),
       n_dealloc := Suc (n_dealloc w)\<rparr>)"
proof -
  note vb = valid_block[OF assms(3,5)]
  define nb where "nb = next_block w"
  define n where "n = m_size v"
  have ne: "a \<noteq> nb" using vb(4) by (simp add: nb_def)
  have c0: "c \<noteq> 0" using assms(4) by simp
  define new where "new = \<lparr>m_buffer = Some nb, m_capacity = c\<rparr>"
  define w1 where "w1 = w\<lparr>heap := (heap w)(nb \<mapsto> replicate c None),
       next_block := Suc nb, n_alloc := Suc (n_alloc w)\<rparr>"
  have 1: "RawMemory_sized c w = (Inr new, w1)"
    using assms(1) c0 by (simp add: RawMemory_sized_ok new_def w1_def nb_def)
  define w2 where "w2 = w1\<lparr>heap := (heap w1)
                 (nb \<mapsto> fill 0 n (\<lambda>j. blk w1 a ! (0 + (j - 0))) (blk w1 nb),
                  a \<mapsto> moved_block tr 0 n (blk w1 a)),
               n_copy := n_copy w1 + (if use_move tr then 0 else n),
               n_move := n_move w1 + (if use_move tr then n else 0)\<rparr>"
  have 2: "transplant tr (Some a, 0) n (Some nb, 0) w1 = (Inr (), w2)"
    unfolding w2_def using assms(1,4) ne vb
    by (intro transplant_ok) (auto simp add: Capacity_of_def w1_def n_def)
  have live: "\<And>j. j < n \<Longrightarrow> moved_block tr 0 n (blk w a) ! j \<noteq> None"
    using vb by (simp add: moved_block_live n_def del: not_None_eq)
  define w3 where "w3 = w2\<lparr>heap := (heap w2)(a \<mapsto> fill 0 n (\<lambda>_. None) (blk w2 a)),
               n_dtor := n_dtor w2 + n\<rparr>"
  have 3: "destroy_n (Some a, 0) n w2 = (Inr (), w3)"
    unfolding w3_def using ne vb(1-4) live
    by (intro destroy_n_ok) (auto simp add: w2_def w1_def n_def)
  have h3: "heap w3 a \<noteq> None" by (simp add: w3_def)
  have "Reserve tr this c w =
     (Inr (), w3\<lparr>objs := (objs w3)(this \<mapsto> v\<lparr>m_data := new\<rparr>),
        heap := (heap w3)(a := None), n_dealloc := Suc (n_dealloc w3)\<rparr>)"
    using assms(2,4) h3
    by (auto simp add: Reserve_def bnd_def unwind_def this_get_ok 1 2 3 GetAddress_def
          RawMemory_Swap_def assms(5) new_def this_put_def RawMemory_dtor_def Deallocate_def
          n_def[symmetric])
  also have "\<dots> = (Inr (),
     w\<lparr>heap := (heap w)(next_block w \<mapsto> fill 0 (m_size v) (\<lambda>j. blk w a ! j) (replicate c None),
                         a := None),
       next_block := Suc (next_block w),
       objs := (objs w)(this \<mapsto> v\<lparr>m_data := \<lparr>m_buffer = Some (next_block w), m_capacity = c\<rparr>\<rparr>),
       n_copy := n_copy w + (if use_move tr then 0 else m_size v),
       n_move := n_move w + (if use_move tr then m_size v else 0),
       n_dtor := n_dtor w + m_size v,
       n_alloc := Suc (n_alloc w),
       n_dealloc := Suc (n_dealloc w)\<rparr>)"
    using ne by (simp add: w3_def w2_def w1_def new_def nb_def n_def fun_upd_twist del: fun_upd_apply)
  finally show ?thesis .
qed

lemma elems_eq_nth:
  assumes "valid w v" "m_buffer (m_data v) = Some a" "length xs = m_size v"
    "\<And>j. j < m_size v \<Longrightarrow> blk w a ! j = Some (xs ! j)"
  shows "elems w v = xs"
  using assms by (intro nth_equalityI) (auto simp add: length_elems elems_nth)

lemma elems_null: "valid w v \<Longrightarrow> m_buffer (m_data v) = None \<Longrightarrow> elems w v = []"
  by (simp add: elems_def block_def)

lemma blk_elems:
  "valid w v \<Longrightarrow> m_buffer (m_data v) = Some a \<Longrightarrow> j < m_size v \<Longrightarrow>
   blk w a ! j = Some (elems w v ! j)"
  using valid_block(5)[of w v a j] by (auto simp add: elems_nth)

lemma Reserve_post:
  assumes "sched w = []" "objs w this = Some v" "valid w v"
  shows "\<exists>w' v'. Reserve tr this c w = (Inr (), w') \<and> objs w' this = Some v' \<and> valid w' v' \<and>
           sched w' = [] \<and> elems w' v' = elems w v \<and> m_size v' = m_size v \<and>
           (if c \<le> Capacity_of v
            then w' = w \<and> v' = v
            else n_alloc w' = Suc (n_alloc w) \<and> Capacity_of v' = c \<and>
              n_copy w' = n_copy w + (if use_move tr then 0 else m_size v) \<and>
              n_move w' = n_move w + (if use_move tr then m_size v else 0))"
proof (cases "c \<le> Capacity_of v")
  case True
  then show ?thesis using assms by (simp add: Reserve_noop)
next
  case False
  then have gt: "Capacity_of v < c" by simp
  show ?thesis
  proof (cases "m_buffer (m_data v)")
    case None
    let ?v' = "v\<lparr>m_data := \<lparr>m_buffer = Some (next_block w), m_capacity = c\<rparr>\<rparr>"
    have z: "m_size v = 0" using valid_null[OF assms(3) None] by simp
    have "valid (w\<lparr>heap := (heap w)(next_block w \<mapsto> replicate c None),
       next_block := Suc (next_block w),
       objs := (objs w)(this \<mapsto> ?v'), n_alloc := Suc (n_alloc w)\<rparr>) ?v'"
      using z by (intro validI[where a="next_block w"]) simp_all
    then show ?thesis
      using Reserve_grow_null[OF assms gt None, of tr] assms(1,3) False z None
      by (simp add: Capacity_of_def elems_def)
  next
    case (Some a)
    note vb = valid_block[OF assms(3) Some]
    let ?v' = "v\<lparr>m_data := \<lparr>m_buffer = Some (next_block w), m_capacity = c\<rparr>\<rparr>"
    let ?w' = "w\<lparr>heap := (heap w)(next_block w \<mapsto> fill 0 (m_size v) (\<lambda>j. blk w a ! j) (replicate c None),
                         a := None),
       next_block := Suc (next_block w),
       objs := (objs w)(this \<mapsto> ?v'),
       n_copy := n_copy w + (if use_move tr then 0 else m_size v),
       n_move := n_move w + (if use_move tr then m_size v else 0),
       n_dtor := n_dtor w + m_size v,
       n_alloc := Suc (n_alloc w),
       n_dealloc := Suc (n_dealloc w)\<rparr>"
    have ne: "a \<noteq> next_block w" "next_block w \<noteq> a" using vb(4) by simp_all
    have v': "valid ?w' ?v'"
      using vb gt ne by (intro validI[where a="next_block w"])
        (auto simp add: nth_fill Capacity_of_def)
    have "elems ?w' ?v' = elems w v"
      using vb gt assms(3) Some ne
      by (intro elems_eq_nth[OF v', where a="next_block w"])
        (auto simp add: nth_fill Capacity_of_def length_elems blk_elems)
    with v' show ?thesis
      using Reserve_grow_block[OF assms gt Some, of tr] assms(1) False
      by (simp add: Capacity_of_def)
  qed
qed

subsection \<open>\<open>PushBack\<close> and \<open>EmplaceBack\<close>\<close>

lemma count_ctor_counts:
  "n_copy (count_ctor k w) = n_copy w + (if k = CopyCtor then 1 else 0)"
  "n_move (count_ctor k w) = n_move w + (if k = MoveCtor then 1 else 0)"
  "n_default (count_ctor k w) = n_default w + (if k = DefaultCtor then 1 else 0)"
  "n_args (count_ctor k w) = n_args w + (if k = ArgsCtor then 1 else 0)"
  by (simp_all add: count_ctor_def split: ctor.splits)

lemma count_ctor_update [simp]:
  "count_ctor k (w\<lparr>heap := h\<rparr>) = (count_ctor k w)\<lparr>heap := h\<rparr>"
  "count_ctor k (w\<lparr>objs := ob\<rparr>) = (count_ctor k w)\<lparr>objs := ob\<rparr>"
  "count_ctor k (w\<lparr>next_block := nb\<rparr>) = (count_ctor k w)\<lparr>next_block := nb\<rparr>"
  "count_ctor k (w\<lparr>n_alloc := na\<rparr>) = (count_ctor k w)\<lparr>n_alloc := na\<rparr>"
  "count_ctor k (w\<lparr>n_dealloc := nd\<rparr>) = (count_ctor k w)\<lparr>n_dealloc := nd\<rparr>"
  "count_ctor k (w\<lparr>n_dtor := nt\<rparr>) = (count_ctor k w)\<lparr>n_dtor := nt\<rparr>"
  by (simp_all add: count_ctor_def split: ctor.splits)

lemma valid_nonnull:
  "valid w v \<Longrightarrow> m_size v < m_capacity (m_data v) \<Longrightarrow> \<exists>a. m_buffer (m_data v) = Some a"
  by (cases "m_buffer (m_data v)") (auto dest: valid_null)

lemma PushBackImpl_room:
  assumes "sched w = []" "objs w this = Some v" "valid w v" "m_size v < Capacity_of v"
    "m_buffer (m_data v) = Some a"
  shows "PushBackImpl tr this (k, x) w = (Inr (),
     count_ctor k (w\<lparr>heap := (heap w)(a \<mapsto> (blk w a)[m_size v := Some x]),
       objs := (objs w)(this \<mapsto> \<lparr>m_data = m_data v, m_size = Suc (m_size v)\<rparr>)\<rparr>))"
proof -
  note vb = valid_block[OF assms(3,5)]
  show ?thesis
    using assms vb(1)
    by (simp add: PushBackImpl_def bnd_def this_get_ok Capacity_of_def GetAddress_def ptr_add_def
        construct_at_ok this_put_def)
qed

lemma PushBackImpl_grow_null:
  assumes "sched w = []" "objs w this = Some v" "valid w v" "m_size v = Capacity_of v"
    "m_buffer (m_data v) = None"
  shows "PushBackImpl tr this (k, x) w = (Inr (),
     count_ctor k (w\<lparr>heap := (heap w)(next_block w \<mapsto> [Some x]),
       next_block := Suc (next_block w),
       objs := (objs w)(this \<mapsto> \<lparr>m_data = \<lparr>m_buffer = Some (next_block w), m_capacity = 1\<rparr>,
                                     m_size = Suc 0\<rparr>),
       n_alloc := Suc (n_alloc w)\<rparr>))"
proof -
  have z: "m_size v = 0" "m_capacity (m_data v) = 0"
    using valid_null[OF assms(3,5)] by simp_all
  show ?thesis
    using assms z
    by (simp add: PushBackImpl_def bnd_def unwind_def this_get_ok RawMemory_sized_ok Capacity_of_def
        grown_def transplant_def uninitialized_move_n_def uninitialized_copy_n_def GetAddress_def
        ptr_add_def construct_at_ok
        RawMemory_Swap_def this_put_def RawMemory_dtor_def Deallocate_def)
qed

lemma PushBackImpl_grow_block:
  assumes "sched w = []" "objs w this = Some v" "valid w v" "m_size v = Capacity_of v"
    "m_buffer (m_data v) = Some a"
  shows "PushBackImpl tr this (k, x) w = (Inr (),
     count_ctor k (w\<lparr>heap := (heap w)(next_block w \<mapsto>
           fill 0 (m_size v) (\<lambda>j. blk w a ! j) ((replicate (grown (m_size v)) None)[m_size v := Some x]),
                         a := None),
       next_block := Suc (next_block w),
       objs := (objs w)(this \<mapsto> \<lparr>m_data = \<lparr>m_buffer = Some (next_block w),
                                               m_capacity = grown (m_size v)\<rparr>,
                                     m_size = Suc (m_size v)\<rparr>),
       n_copy := n_copy w + (if use_move tr then 0 else m_size v),
       n_move := n_move w + (if use_move tr then m_size v else 0),
       n_dtor := n_dtor w + m_size v,
       n_alloc := Suc (n_alloc w),
       n_dealloc := Suc (n_dealloc w)\<rparr>))"
proof -
  note vb = valid_block[OF assms(3,5)]
  define nb where "nb = next_block w"
  define n where "n = m_size v"
  have cap: "m_capacity (m_data v) = n" using assms(4) by (simp add: Capacity_of_def n_def)
  have ne: "a \<noteq> nb" "nb \<noteq> a" using vb(4) by (simp_all add: nb_def)
  have g0: "grown n \<noteq> 0" "n < grown n" by (simp_all add: grown_def)
  define new where "new = \<lparr>m_buffer = Some nb, m_capacity = grown n\<rparr>"
  define w1 where "w1 = w\<lparr>heap := (heap w)(nb \<mapsto> replicate (grown n) None),
       next_block := Suc nb, n_alloc := Suc (n_alloc w)\<rparr>"
  have 1: "RawMemory_sized (grown n) w = (Inr new, w1)"
    using assms(1) g0 by (simp add: RawMemory_sized_ok new_def w1_def nb_def)
  define w1c where "w1c = count_ctor k (w1\<lparr>heap := (heap w1)(nb \<mapsto> (blk w1 nb)[n := Some x])\<rparr>)"
  have c1: "construct_at tr k (Some nb, n) x w1 = (Inr (), w1c)"
    unfolding w1c_def using assms(1) g0 by (intro construct_at_ok) (simp_all add: w1_def)
  define w2 where "w2 = w1c\<lparr>heap := (heap w1c)
                 (nb \<mapsto> fill 0 n (\<lambda>j. blk w1c a ! (0 + (j - 0))) (blk w1c nb),
                  a \<mapsto> moved_block tr 0 n (blk w1c a)),
               n_copy := n_copy w1c + (if use_move tr then 0 else n),
               n_move := n_move w1c + (if use_move tr then n else 0)\<rparr>"
  have 2: "transplant tr (Some a, 0) n (Some nb, 0) w1c = (Inr (), w2)"
    unfolding w2_def using assms(1) ne vb g0 cap
    by (intro transplant_ok) (auto simp add: w1c_def w1_def n_def)
  have live: "\<And>j. j < n \<Longrightarrow> moved_block tr 0 n (blk w a) ! j \<noteq> None"
    using vb by (simp add: moved_block_live n_def del: not_None_eq)
  define w3 where "w3 = w2\<lparr>heap := (heap w2)(a \<mapsto> fill 0 n (\<lambda>_. None) (blk w2 a)),
               n_dtor := n_dtor w2 + n\<rparr>"
  have 3: "destroy_n (Some a, 0) n w2 = (Inr (), w3)"
    unfolding w3_def using ne vb(1-4) live cap
    by (intro destroy_n_ok) (auto simp add: w2_def w1c_def w1_def)
  have h3: "heap w3 a \<noteq> None" by (simp add: w3_def)
  have "PushBackImpl tr this (k, x) w =
     (Inr (), w3\<lparr>objs := (objs w3)(this \<mapsto> \<lparr>m_data = new, m_size = Suc n\<rparr>),
        heap := (heap w3)(a := None), n_dealloc := Suc (n_dealloc w3)\<rparr>)"
    using assms(2) h3 cap
    by (auto simp add: PushBackImpl_def bnd_def unwind_def this_get_ok 1 c1 2 3 GetAddress_def
          ptr_add_def Capacity_of_def
          RawMemory_Swap_def assms(5) new_def this_put_def RawMemory_dtor_def Deallocate_def
          n_def[symmetric])
  also have "\<dots> = (Inr (),
     count_ctor k (w\<lparr>heap := (heap w)(next_block w \<mapsto>
           fill 0 (m_size v) (\<lambda>j. blk w a ! j) ((replicate (grown (m_size v)) None)[m_size v := Some x]),
                         a := None),
       next_block := Suc (next_block w),
       objs := (objs w)(this \<mapsto> \<lparr>m_data = \<lparr>m_buffer = Some (next_block w),
                                               m_capacity = grown (m_size v)\<rparr>,
                                     m_size = Suc (m_size v)\<rparr>),
       n_copy := n_copy w + (if use_move tr then 0 else m_size v),
       n_move := n_move w + (if use_move tr then m_size v else 0),
       n_dtor := n_dtor w + m_size v,
       n_alloc := Suc (n_alloc w),
       n_dealloc := Suc (n_dealloc w)\<rparr>))"
    using ne
    by (cases k) (simp_all add: w3_def w2_def w1c_def w1_def new_def nb_def n_def count_ctor_def
         fun_upd_twist del: fun_upd_apply)
  finally show ?thesis .
qed

lemma EmplaceBack_PushBackImpl:
  "EmplaceBack tr this args =
     bnd (PushBackImpl tr this args) (\<lambda>_.
     bnd (this_get this) (\<lambda>v'. ret (ptr_add (GetAddress (m_data v')) (m_size v' - 1))))"
  by (rule ext)
    (simp add: EmplaceBack_def PushBackImpl_def bnd_def this_get_def this_put_def
       split: prod.splits sum.splits option.splits)


lemma PushBackImpl_spec:
  assumes "sched w = []" "objs w this = Some v" "valid w v"
  shows "\<exists>w' v'. PushBackImpl tr this (k, x) w = (Inr (), w') \<and> objs w' this = Some v' \<and>
           valid w' v' \<and> sched w' = [] \<and> elems w' v' = elems w v @ [x] \<and>
           m_size v' = Suc (m_size v) \<and>
           Capacity_of v' = (if m_size v = Capacity_of v then grown (m_size v) else Capacity_of v) \<and>
           n_copy w' = n_copy w + (if k = CopyCtor then 1 else 0) +
             (if m_size v = Capacity_of v \<and> \<not> use_move tr then m_size v else 0) \<and>
           n_move w' = n_move w + (if k = MoveCtor then 1 else 0) +
             (if m_size v = Capacity_of v \<and> use_move tr then m_size v else 0)"
proof (cases "m_size v = Capacity_of v")
  case full: True
  show ?thesis
  proof (cases "m_buffer (m_data v)")
    case None
    have z: "m_size v = 0" using valid_null[OF assms(3) None] by simp
    let ?v' = "\<lparr>m_data = \<lparr>m_buffer = Some (next_block w), m_capacity = 1\<rparr>, m_size = Suc 0\<rparr>"
    let ?w' = "count_ctor k (w\<lparr>heap := (heap w)(next_block w \<mapsto> [Some x]),
       next_block := Suc (next_block w),
       objs := (objs w)(this \<mapsto> ?v'),
       n_alloc := Suc (n_alloc w)\<rparr>)"
    have v': "valid ?w' ?v'"
      by (intro validI[where a="next_block w"]) simp_all
    have e: "elems ?w' ?v' = [x]"
      by (simp add: elems_def block_def)
    show ?thesis
      using PushBackImpl_grow_null[OF assms full None, of tr k x] v' e assms(1,3) z None full
      by (simp add: Capacity_of_def elems_null grown_def count_ctor_counts)
  next
    case (Some a)
    note vb = valid_block[OF assms(3) Some]
    let ?n = "m_size v"
    let ?v' = "\<lparr>m_data = \<lparr>m_buffer = Some (next_block w), m_capacity = grown ?n\<rparr>, m_size = Suc ?n\<rparr>"
    let ?w' = "count_ctor k (w\<lparr>heap := (heap w)(next_block w \<mapsto>
           fill 0 ?n (\<lambda>j. blk w a ! j) ((replicate (grown ?n) None)[?n := Some x]),
                         a := None),
       next_block := Suc (next_block w),
       objs := (objs w)(this \<mapsto> ?v'),
       n_copy := n_copy w + (if use_move tr then 0 else ?n),
       n_move := n_move w + (if use_move tr then ?n else 0),
       n_dtor := n_dtor w + ?n,
       n_alloc := Suc (n_alloc w),
       n_dealloc := Suc (n_dealloc w)\<rparr>)"
    have ne: "a \<noteq> next_block w" "next_block w \<noteq> a" using vb(4) by simp_all
    have g: "?n < grown ?n" by (simp add: grown_def)
    have v': "valid ?w' ?v'"
      using vb ne g by (intro validI[where a="next_block w"])
        (auto simp add: nth_fill nth_list_update)
    have e: "elems ?w' ?v' = elems w v @ [x]"
      using vb assms(3) Some ne g
      by (intro elems_eq_nth[OF v', where a="next_block w"])
        (auto simp add: nth_fill nth_list_update length_elems blk_elems nth_append
           dest: less_SucE)
    show ?thesis
      using PushBackImpl_grow_block[OF assms full Some, of tr k x] v' e assms(1) full
      by (simp add: Capacity_of_def count_ctor_counts)
  qed
next
  case False
  with assms(3) have room: "m_size v < Capacity_of v"
    by (simp add: valid_iff Capacity_of_def)
  then obtain a where Some: "m_buffer (m_data v) = Some a"
    using valid_nonnull[OF assms(3)] by (auto simp add: Capacity_of_def)
  note vb = valid_block[OF assms(3) Some]
  let ?n = "m_size v"
  let ?v' = "\<lparr>m_data = m_data v, m_size = Suc ?n\<rparr>"
  let ?w' = "count_ctor k (w\<lparr>heap := (heap w)(a \<mapsto> (blk w a)[?n := Some x]),
       objs := (objs w)(this \<mapsto> ?v')\<rparr>)"
  have v': "valid ?w' ?v'"
    using vb room Some by (intro validI[where a=a])
      (auto simp add: nth_list_update Capacity_of_def)
  have e: "elems ?w' ?v' = elems w v @ [x]"
    using vb assms(3) Some room
    by (intro elems_eq_nth[OF v', where a=a])
      (auto simp add: nth_list_update length_elems blk_elems nth_append Capacity_of_def
         dest: less_SucE)
  show ?thesis
    using PushBackImpl_room[OF assms room Some, of tr k x] v' e assms(1) False
    by (simp add: Capacity_of_def count_ctor_counts)
qed

subsection \<open>\<open>Emplace\<close>\<close>

lemma transplant_0: "transplant tr src 0 dst = ret ()"
  by (simp add: transplant_def uninitialized_move_n_def uninitialized_copy_n_def)

lemma Emplace_grow_null:
  assumes "sched w = []" "objs w this = Some v" "valid w v"
    "m_buffer (m_data v) = None"
  shows "Emplace tr this (None, 0) (k, x) w = (Inr (Some (next_block w), 0),
     count_ctor k (w\<lparr>heap := (heap w)(next_block w \<mapsto> [Some x]),
       next_block := Suc (next_block w),
       objs := (objs w)(this \<mapsto> \<lparr>m_data = \<lparr>m_buffer = Some (next_block w), m_capacity = 1\<rparr>,
                                     m_size = Suc 0\<rparr>),
       n_alloc := Suc (n_alloc w)\<rparr>))"
proof -
  have z: "m_size v = 0" "m_capacity (m_data v) = 0"
    using valid_null[OF assms(3,4)] by simp_all
  show ?thesis
    using assms z
    by (simp add: Emplace_def bnd_def unwind_def this_get_ok RawMemory_sized_ok Capacity_of_def
        grown_def GetAddress_def Vector_begin_def Vector_end_def Let_def
        ptr_add_def construct_at_ok
        RawMemory_Swap_def this_put_def RawMemory_dtor_def Deallocate_def)
qed

lemma Emplace_grow_block:
  assumes "sched w = []" "objs w this = Some v" "valid w v" "m_size v = Capacity_of v"
    "m_buffer (m_data v) = Some a" "i \<le> m_size v"
  shows "Emplace tr this (Some a, i) (k, x) w = (Inr (Some (next_block w), i),
     count_ctor k (w\<lparr>heap := (heap w)(next_block w \<mapsto>
           fill (Suc i) (m_size v - i) (\<lambda>j. blk w a ! (j - 1))
             (fill 0 i (\<lambda>j. blk w a ! j) ((replicate (grown (m_size v)) None)[i := Some x])),
                         a := None),
       next_block := Suc (next_block w),
       objs := (objs w)(this \<mapsto> \<lparr>m_data = \<lparr>m_buffer = Some (next_block w),
                                               m_capacity = grown (m_size v)\<rparr>,
                                     m_size = Suc (m_size v)\<rparr>),
       n_copy := n_copy w + (if use_move tr then 0 else m_size v),
       n_move := n_move w + (if use_move tr then m_size v else 0),
       n_dtor := n_dtor w + m_size v,
       n_alloc := Suc (n_alloc w),
       n_dealloc := Suc (n_dealloc w)\<rparr>))"
proof -
  note vb = valid_block[OF assms(3,5)]
  define nb where "nb = next_block w"
  define n where "n = m_size v"
  have cap: "m_capacity (m_data v) = n" using assms(4) by (simp add: Capacity_of_def n_def)
  have i: "i \<le> n" using assms(6) by (simp add: n_def)
  have ne: "a \<noteq> nb" "nb \<noteq> a" using vb(4) by (simp_all add: nb_def)
  have g0: "grown n \<noteq> 0" "n < grown n" by (simp_all add: grown_def)
  define new where "new = \<lparr>m_buffer = Some nb, m_capacity = grown n\<rparr>"
  define w1 where "w1 = w\<lparr>heap := (heap w)(nb \<mapsto> replicate (grown n) None),
       next_block := Suc nb, n_alloc := Suc (n_alloc w)\<rparr>"
  have 1: "RawMemory_sized (grown n) w = (Inr new, w1)"
    using assms(1) g0 by (simp add: RawMemory_sized_ok new_def w1_def nb_def)
  define w1c where "w1c = count_ctor k (w1\<lparr>heap := (heap w1)(nb \<mapsto> (blk w1 nb)[i := Some x])\<rparr>)"
  have c1: "construct_at tr k (Some nb, i) x w1 = (Inr (), w1c)"
    unfolding w1c_def using assms(1) g0 i by (intro construct_at_ok) (simp_all add: w1_def)
  define w2 where "w2 = w1c\<lparr>heap := (heap w1c)
                 (nb \<mapsto> fill 0 i (\<lambda>j. blk w1c a ! (0 + (j - 0))) (blk w1c nb),
                  a \<mapsto> moved_block tr 0 i (blk w1c a)),
               n_copy := n_copy w1c + (if use_move tr then 0 else i),
               n_move := n_move w1c + (if use_move tr then i else 0)\<rparr>"
  have 2: "transplant tr (Some a, 0) i (Some nb, 0) w1c = (Inr (), w2)"
    unfolding w2_def using assms(1) ne vb g0 cap i
    by (intro transplant_ok) (auto simp add: w1c_def w1_def n_def)
  have t2: "(if 0 < i then transplant tr (Some a, 0) i (Some nb, 0) else ret ()) w1c
      = (Inr (), w2)"
    using 2 by (auto simp add: transplant_0)
  define w3 where "w3 = w2\<lparr>heap := (heap w2)
                 (nb \<mapsto> fill (Suc i) (n - i) (\<lambda>j. blk w2 a ! (i + (j - Suc i))) (blk w2 nb),
                  a \<mapsto> moved_block tr i (n - i) (blk w2 a)),
               n_copy := n_copy w2 + (if use_move tr then 0 else n - i),
               n_move := n_move w2 + (if use_move tr then n - i else 0)\<rparr>"
  have live2: "\<And>j. j < n \<Longrightarrow> blk w2 a ! j \<noteq> None"
    using vb ne cap by (simp add: w2_def w1c_def w1_def moved_block_live n_def del: not_None_eq)
  have len2: "length (blk w2 a) = n" "length (blk w2 nb) = grown n" "sched w2 = []"
    "heap w2 a \<noteq> None" "heap w2 nb \<noteq> None"
    using vb ne cap assms(1) by (simp_all add: w2_def w1c_def w1_def)
  have 3: "transplant tr (Some a, i) (n - i) (Some nb, Suc i) w2 = (Inr (), w3)"
    unfolding w3_def using ne g0 i live2 len2
    by (intro transplant_ok) auto
  have t3: "(if i \<noteq> n then transplant tr (Some a, i) (n - i) (Some nb, Suc i) else ret ()) w2
      = (Inr (), w3)"
    using 3 by (auto simp add: transplant_0)
  have live3: "\<And>j. j < n \<Longrightarrow> blk w3 a ! j \<noteq> None"
    using live2 len2 ne by (simp add: w3_def moved_block_live del: not_None_eq)
  have len3: "length (blk w3 a) = n" "heap w3 a \<noteq> None"
    using len2 ne by (simp_all add: w3_def)
  define w4 where "w4 = w3\<lparr>heap := (heap w3)(a \<mapsto> fill 0 n (\<lambda>_. None) (blk w3 a)),
               n_dtor := n_dtor w3 + n\<rparr>"
  have 4: "destroy_n (Some a, 0) n w3 = (Inr (), w4)"
    unfolding w4_def using live3 len3
    by (intro destroy_n_ok) auto
  have h4: "heap w4 a \<noteq> None" by (simp add: w4_def)
  have "Emplace tr this (Some a, i) (k, x) w =
     (Inr (Some nb, i), w4\<lparr>objs := (objs w4)(this \<mapsto> \<lparr>m_data = new, m_size = Suc n\<rparr>),
        heap := (heap w4)(a := None), n_dealloc := Suc (n_dealloc w4)\<rparr>)"
    using assms(2) i
    by (simp add: Emplace_def bnd_def unwind_def this_get_ok 1 c1 t2 t3 4 GetAddress_def
          Vector_begin_def Vector_end_def Let_def cap h4
          ptr_add_def Capacity_of_def
          RawMemory_Swap_def assms(5) new_def this_put_def RawMemory_dtor_def Deallocate_ok
          n_def[symmetric] split del: if_split cong: if_cong)
  also have "\<dots> = (Inr (Some (next_block w), i),
     count_ctor k (w\<lparr>heap := (heap w)(next_block w \<mapsto>
           fill (Suc i) (m_size v - i) (\<lambda>j. blk w a ! (j - 1))
             (fill 0 i (\<lambda>j. blk w a ! j) ((replicate (grown (m_size v)) None)[i := Some x])),
                         a := None),
       next_block := Suc (next_block w),
       objs := (objs w)(this \<mapsto> \<lparr>m_data = \<lparr>m_buffer = Some (next_block w),
                                               m_capacity = grown (m_size v)\<rparr>,
                                     m_size = Suc (m_size v)\<rparr>),
       n_copy := n_copy w + (if use_move tr then 0 else m_size v),
       n_move := n_move w + (if use_move tr then m_size v else 0),
       n_dtor := n_dtor w + m_size v,
       n_alloc := Suc (n_alloc w),
       n_dealloc := Suc (n_dealloc w)\<rparr>))"
  proof -
    have F: "fill (Suc i) (n - i) (\<lambda>j. moved_block tr 0 i (blk w a) ! (i + (j - Suc i)))
              (fill 0 i (\<lambda>j. blk w a ! j) ((replicate (grown n) None)[i := Some x]))
           = fill (Suc i) (n - i) (\<lambda>j. blk w a ! (j - 1))
              (fill 0 i (\<lambda>j. blk w a ! j) ((replicate (grown n) None)[i := Some x]))"
      using vb(1) cap i g0
      by (intro fill_cong) (auto simp add: moved_block_outside)
    show ?thesis
      using ne i F
      by (cases k) (simp_all add: w4_def w3_def w2_def w1c_def w1_def new_def nb_def n_def
           count_ctor_def fun_upd_twist del: fun_upd_apply)
  qed
  finally show ?thesis .
qed

lemma Emplace_room_end:
  assumes "sched w = []" "objs w this = Some v" "valid w v" "m_size v < Capacity_of v"
    "m_buffer (m_data v) = Some a"
  shows "Emplace tr this (Some a, m_size v) (k, x) w = (Inr (Some a, m_size v),
     count_ctor k (w\<lparr>heap := (heap w)(a \<mapsto> (blk w a)[m_size v := Some x]),
       objs := (objs w)(this \<mapsto> v\<lparr>m_size := Suc (m_size v)\<rparr>)\<rparr>))"
proof -
  note vb = valid_block[OF assms(3,5)]
  show ?thesis
    using assms vb(1)
    by (simp add: Emplace_def bnd_def this_get_ok Capacity_of_def GetAddress_def ptr_add_def
        Vector_begin_def Vector_end_def Let_def
        construct_at_ok this_put_def)
qed

lemma nat_pinch_less: "\<not> i < k \<Longrightarrow> i < Suc k \<Longrightarrow> i = k"
  by simp

lemma construct_local_ok:
  "sched w = [] \<Longrightarrow> construct_local tr k w = (Inr (), count_ctor k w)"
  by (simp add: construct_local_def bnd_def attempt_ok)

lemma uninitialized_move_1_ok:
  "sched w = [] \<Longrightarrow> si < length (blk w a) \<Longrightarrow> blk w a ! si \<noteq> None \<Longrightarrow>
   di < length (blk w a) \<Longrightarrow>
   uninitialized_move_n tr (Some a, si) (Suc 0) (Some a, di) w =
     (Inr (), w\<lparr>heap := (heap w)(a \<mapsto> (blk w a)[di := blk w a ! si,
                                   si := Some (moved_from tr (the (blk w a ! si)))]),
               n_move := Suc (n_move w)\<rparr>)"
  by (simp add: uninitialized_move_n_def bnd_def unwind_def ptr_add_def move_construct_same_ok)

lemma uninitialized_copy_1_ok:
  "sched w = [] \<Longrightarrow> si < length (blk w a) \<Longrightarrow> blk w a ! si \<noteq> None \<Longrightarrow>
   di < length (blk w a) \<Longrightarrow>
   uninitialized_copy_n tr (Some a, si) (Suc 0) (Some a, di) w =
     (Inr (), w\<lparr>heap := (heap w)(a \<mapsto> (blk w a)[di := blk w a ! si]),
               n_copy := Suc (n_copy w)\<rparr>)"
  by (simp add: uninitialized_copy_n_def bnd_def unwind_def ptr_add_def copy_construct_ok)

text \<open>The shift of the elements from \<open>i\<close> on by one slot, and the assignment to slot \<open>i\<close>.\<close>

lemma shift_right_copy:
  assumes "sched w = []" "valid w v" "m_size v < Capacity_of v" "m_buffer (m_data v) = Some a"
    "i < m_size v" "\<not> use_move tr"
  shows "shift_right tr v (Some a, i) x w = (Inr (),
     w\<lparr>heap := (heap w)(a \<mapsto> (fill (Suc i) (m_size v - i) (\<lambda>j. blk w a ! (j - 1)) (blk w a))
                              [i := Some x]),
       n_copy := Suc (Suc (n_copy w))\<rparr>)"
proof -
  note vb = valid_block[OF assms(2,4)]
  define n where "n = m_size v"
  define m where "m = n - Suc i"
  have n: "i < n" "n < length (blk w a)" "n = Suc (i + m)"
    using assms(3,5) vb(1) by (simp_all add: n_def m_def Capacity_of_def)
  have live: "\<And>j. j < n \<Longrightarrow> blk w a ! j \<noteq> None"
    using vb(5) by (simp add: n_def del: not_None_eq)
  define b1 where "b1 = (blk w a)[n := blk w a ! (n - Suc 0)]"
  define w1 where "w1 = w\<lparr>heap := (heap w)(a \<mapsto> b1), n_copy := Suc (n_copy w)\<rparr>"
  have 1: "copy_construct tr (Some a, n) (Some a, n - Suc 0) w = (Inr (), w1)"
    unfolding w1_def b1_def using assms(1) n live by (intro copy_construct_ok) auto
  define w2 where "w2 = w1\<lparr>heap := (heap w1)(a \<mapsto> (blk w1 a)[n := blk w1 a ! (n - Suc 0)]),
               n_copy := Suc (n_copy w1)\<rparr>"
  have 2: "uninitialized_copy_n tr (Some a, n - Suc 0) (Suc 0) (Some a, n) w1 = (Inr (), w2)"
    unfolding w2_def using assms(1) n live
    by (intro uninitialized_copy_1_ok) (auto simp add: w1_def b1_def nth_list_update)
  have b2: "blk w2 a = b1" "sched w2 = []" "heap w2 a \<noteq> None"
    using n assms(1) by (simp_all add: w2_def w1_def b1_def nth_list_update)
  have live1: "\<And>j. j \<le> n \<Longrightarrow> b1 ! j \<noteq> None"
    using live n by (auto simp add: b1_def nth_list_update simp del: not_None_eq)
  have lb1: "length b1 = length (blk w a)" by (simp add: b1_def)
  define w3 where "w3 = w2\<lparr>heap := (heap w2)(a \<mapsto> fill (Suc i) m (\<lambda>j. blk w2 a ! (j - 1)) (blk w2 a))\<rparr>"
  have eq: "Suc (i + m) = n" using n(3) by simp
  have "copy_backward (Some a, i) m (Some a, Suc (i + m)) w2 = (Inr (), w3)"
    unfolding w3_def using b2 n(1,2) eq live1 lb1
    by (intro copy_backward_ok) auto
  then have 3: "copy_backward (Some a, i) (n - Suc i) (Some a, n) w2 = (Inr (), w3)"
    unfolding eq unfolding m_def .
  define w4 where "w4 = w3\<lparr>heap := (heap w3)(a \<mapsto> (blk w3 a)[i := Some x])\<rparr>"
  have 4: "assign_at (Some a, i) x w3 = (Inr (), w4)"
    unfolding w4_def using b2 n(1,2) live1 lb1
    by (intro assign_at_ok) (auto simp add: w3_def nth_fill)
  have "shift_right tr v (Some a, i) x w = (Inr (), w4)"
    using assms(3,5,6) n(1)
    by (simp add: shift_right_def Let_def Vector_end_def GetAddress_def ptr_add_def assms(4)
         bnd_def RawMemory_index_def Capacity_of_def
         n_def[symmetric] 1 2 3 4)
  also have "w4 = w\<lparr>heap := (heap w)(a \<mapsto> (fill (Suc i) (m_size v - i) (\<lambda>j. blk w a ! (j - 1)) (blk w a))
                              [i := Some x]),
       n_copy := Suc (Suc (n_copy w))\<rparr>"
  proof -
    have "(fill (Suc i) m (\<lambda>j. b1 ! (j - 1)) b1)[i := Some x] =
          (fill (Suc i) (n - i) (\<lambda>j. blk w a ! (j - 1)) (blk w a))[i := Some x]"
      using n(1,2) eq by (intro nth_equalityI)
        (auto simp add: nth_fill nth_list_update b1_def dest: nat_pinch_less)
    then show ?thesis
      using b2 by (simp add: w4_def w3_def w2_def w1_def n_def del: fun_upd_apply)
  qed
  finally show ?thesis .
qed


lemma shift_right_move:
  assumes "sched w = []" "valid w v" "m_size v < Capacity_of v" "m_buffer (m_data v) = Some a"
    "i < m_size v" "use_move tr"
  shows "shift_right tr v (Some a, i) x w = (Inr (),
     w\<lparr>heap := (heap w)(a \<mapsto> (fill (Suc i) (m_size v - i) (\<lambda>j. blk w a ! (j - 1)) (blk w a))
                              [i := Some x]),
       n_move := Suc (n_move w)\<rparr>)"
proof -
  note vb = valid_block[OF assms(2,4)]
  define n where "n = m_size v"
  define m where "m = n - Suc i"
  have n: "i < n" "n < length (blk w a)"
    using assms(3,5) vb(1) by (simp_all add: n_def Capacity_of_def)
  have eq: "Suc (i + m) = n" using n(1) by (simp add: m_def)
  have live: "\<And>j. j < n \<Longrightarrow> blk w a ! j \<noteq> None"
    using vb(5) by (simp add: n_def del: not_None_eq)
  define b1 where "b1 = (blk w a)[n := blk w a ! (n - Suc 0),
                                 n - Suc 0 := Some (moved_from tr (the (blk w a ! (n - Suc 0))))]"
  define w1 where "w1 = w\<lparr>heap := (heap w)(a \<mapsto> b1), n_move := Suc (n_move w)\<rparr>"
  have 1: "uninitialized_move_n tr (Some a, n - Suc 0) (Suc 0) (Some a, n) w = (Inr (), w1)"
    unfolding w1_def b1_def using assms(1) n live by (intro uninitialized_move_1_ok) auto
  have b2: "blk w1 a = b1" "sched w1 = []" "heap w1 a \<noteq> None"
    using assms(1) by (simp_all add: w1_def)
  have live1: "\<And>j. j \<le> n \<Longrightarrow> b1 ! j \<noteq> None"
    using live n by (auto simp add: b1_def nth_list_update simp del: not_None_eq)
  have lb1: "length b1 = length (blk w a)" by (simp add: b1_def)
  define b3 where "b3 = (if m = 0 then b1 else
     (fill (Suc i) m (\<lambda>j. b1 ! (j - 1)) b1)[i := Some (moved_from tr (the (b1 ! i)))])"
  define w3 where "w3 = w1\<lparr>heap := (heap w1)(a \<mapsto> b3)\<rparr>"
  have 3: "move_backward tr (Some a, i) (n - Suc i) (Some a, n) w1 = (Inr (), w3)"
  proof (cases m)
    case 0
    then have "w3 = w1" using heap_blk_triv[of w1 a] b2 by (simp add: w3_def b3_def)
    with 0 show ?thesis by (simp add: m_def)
  next
    case (Suc m')
    have "move_backward tr (Some a, i) (Suc m') (Some a, Suc (i + Suc m')) w1 =
       (Inr (), w1\<lparr>heap := (heap w1)(a \<mapsto> (fill (Suc i) (Suc m') (\<lambda>j. blk w1 a ! (j - 1)) (blk w1 a))
        [i := Some (moved_from tr (the (blk w1 a ! i)))])\<rparr>)"
      using b2 n(2) eq live1 lb1 Suc
      by (intro move_backward_ok) auto
    then show ?thesis
      using Suc eq b2(1) by (simp add: w3_def b3_def m_def del: move_backward.simps)
  qed
  have l3: "length b3 = length (blk w a)" "b3 ! i \<noteq> None"
    using n lb1 live1[of i] by (auto simp add: b3_def nth_fill)
  define w4 where "w4 = w3\<lparr>heap := (heap w3)(a \<mapsto> (blk w3 a)[i := Some x])\<rparr>"
  have 4: "assign_at (Some a, i) x w3 = (Inr (), w4)"
    unfolding w4_def using b2 n(1,2) l3
    by (intro assign_at_ok) (auto simp add: w3_def)
  have "shift_right tr v (Some a, i) x w = (Inr (), w4)"
    using assms(3,5,6) n(1)
    by (simp add: shift_right_def Let_def Vector_end_def GetAddress_def ptr_add_def assms(4)
         bnd_def RawMemory_index_def Capacity_of_def
         n_def[symmetric] 1 3 4)
  also have "w4 = w\<lparr>heap := (heap w)(a \<mapsto> (fill (Suc i) (m_size v - i) (\<lambda>j. blk w a ! (j - 1)) (blk w a))
                              [i := Some x]),
       n_move := Suc (n_move w)\<rparr>"
  proof -
    have "b3[i := Some x] =
          (fill (Suc i) (n - i) (\<lambda>j. blk w a ! (j - 1)) (blk w a))[i := Some x]"
      using n(1,2) eq by (intro nth_equalityI)
        (auto simp add: nth_fill nth_list_update b3_def b1_def dest: nat_pinch_less)
    then show ?thesis
      by (simp add: w4_def w3_def w1_def n_def del: fun_upd_apply)
  qed
  finally show ?thesis .
qed

lemma valid_count_ctor [simp]: "valid (count_ctor k w) v = valid w v"
  by (simp add: valid_def block_def split: option.splits)

lemma Emplace_room_mid:
  assumes "sched w = []" "objs w this = Some v" "valid w v" "m_size v < Capacity_of v"
    "m_buffer (m_data v) = Some a" "i < m_size v"
  shows "Emplace tr this (Some a, i) (k, x) w = (Inr (Some a, i),
     (count_ctor k w)\<lparr>heap := (heap w)(a \<mapsto>
          (fill (Suc i) (m_size v - i) (\<lambda>j. blk w a ! (j - 1)) (blk w a))[i := Some x]),
       objs := (objs w)(this \<mapsto> v\<lparr>m_size := Suc (m_size v)\<rparr>),
       n_copy := n_copy (count_ctor k w) + (if use_move tr then 0 else 2),
       n_move := n_move (count_ctor k w) + (if use_move tr then 1 else 0),
       n_dtor := Suc (n_dtor w)\<rparr>)"
proof -
  define w0 where "w0 = count_ctor k w"
  have 0: "construct_local tr k w = (Inr (), w0)"
    using assms(1) by (simp add: construct_local_ok w0_def)
  have p0: "sched w0 = []" "valid w0 v" "blk w0 a = blk w a" "heap w0 = heap w" "objs w0 = objs w"
    "n_dtor w0 = n_dtor w"
    using assms(1,3) by (simp_all add: w0_def)
  define B where "B = (fill (Suc i) (m_size v - i) (\<lambda>j. blk w a ! (j - 1)) (blk w a))[i := Some x]"
  define w1 where "w1 = w0\<lparr>heap := (heap w0)(a \<mapsto> B),
       n_copy := n_copy w0 + (if use_move tr then 0 else 2),
       n_move := n_move w0 + (if use_move tr then 1 else 0)\<rparr>"
  have 1: "shift_right tr v (Some a, i) x w0 = (Inr (), w1)"
  proof (cases "use_move tr")
    case True
    then show ?thesis
      using shift_right_move[OF p0(1,2) assms(4,5,6) True, of x] p0(3)
      by (simp add: w1_def B_def)
  next
    case False
    then show ?thesis
      using shift_right_copy[OF p0(1,2) assms(4,5,6) False, of x] p0(3)
      by (simp add: w1_def B_def)
  qed
  have "Emplace tr this (Some a, i) (k, x) w =
     (Inr (Some a, i), w1\<lparr>objs := (objs w1)(this \<mapsto> v\<lparr>m_size := Suc (m_size v)\<rparr>),
                           n_dtor := Suc (n_dtor w1)\<rparr>)"
    using assms(2,4,6)
    by (simp add: Emplace_def bnd_def unwind_def this_get_ok Capacity_of_def GetAddress_def
        ptr_add_def Vector_begin_def Vector_end_def Let_def assms(5) 0 1
        this_put_def destroy_local_def)
  also have "w1\<lparr>objs := (objs w1)(this \<mapsto> v\<lparr>m_size := Suc (m_size v)\<rparr>),
                           n_dtor := Suc (n_dtor w1)\<rparr> =
     (count_ctor k w)\<lparr>heap := (heap w)(a \<mapsto>
          (fill (Suc i) (m_size v - i) (\<lambda>j. blk w a ! (j - 1)) (blk w a))[i := Some x]),
       objs := (objs w)(this \<mapsto> v\<lparr>m_size := Suc (m_size v)\<rparr>),
       n_copy := n_copy (count_ctor k w) + (if use_move tr then 0 else 2),
       n_move := n_move (count_ctor k w) + (if use_move tr then 1 else 0),
       n_dtor := Suc (n_dtor w)\<rparr>"
    using p0(4,5,6) by (simp add: w1_def B_def) (simp add: w0_def)
  finally show ?thesis .
qed


lemma insert_nth:
  "i \<le> length xs \<Longrightarrow> j \<le> length xs \<Longrightarrow>
   (take i xs @ x # drop i xs) ! j = (if j < i then xs ! j else if j = i then x else xs ! (j - 1))"
  by (auto simp add: nth_append min_def nth_Cons')

lemma Emplace_spec:
  assumes "sched w = []" "objs w this = Some v" "valid w v" "i \<le> m_size v"
  shows "\<exists>w' v'. Emplace tr this (m_buffer (m_data v), i) (k, x) w =
             (Inr (m_buffer (m_data v'), i), w') \<and>
           objs w' this = Some v' \<and> valid w' v' \<and> sched w' = [] \<and>
           elems w' v' = take i (elems w v) @ x # drop i (elems w v) \<and>
           m_size v' = Suc (m_size v) \<and>
           Capacity_of v' = (if m_size v = Capacity_of v then grown (m_size v) else Capacity_of v) \<and>
           (m_size v = Capacity_of v \<longrightarrow>
              n_copy w' = n_copy w + (if k = CopyCtor then 1 else 0) +
                (if use_move tr then 0 else m_size v) \<and>
              n_move w' = n_move w + (if k = MoveCtor then 1 else 0) +
                (if use_move tr then m_size v else 0))"
proof (cases "m_buffer (m_data v)")
  case None
  have z: "m_size v = 0" "m_capacity (m_data v) = 0" "i = 0"
    using valid_null[OF assms(3) None] assms(4) by simp_all
  let ?v' = "\<lparr>m_data = \<lparr>m_buffer = Some (next_block w), m_capacity = 1\<rparr>, m_size = Suc 0\<rparr>"
  let ?w' = "count_ctor k (w\<lparr>heap := (heap w)(next_block w \<mapsto> [Some x]),
       next_block := Suc (next_block w),
       objs := (objs w)(this \<mapsto> ?v'),
       n_alloc := Suc (n_alloc w)\<rparr>)"
  have v': "valid ?w' ?v'"
    by (intro validI[where a="next_block w"]) simp_all
  have e: "elems ?w' ?v' = [x]"
    by (simp add: elems_def block_def)
  show ?thesis
    using Emplace_grow_null[OF assms(1-3) None, of tr k x] v' e assms(1,3) z None
    by (simp add: Capacity_of_def elems_null grown_def count_ctor_counts)
next
  case (Some a)
  note vb = valid_block[OF assms(3) Some]
  let ?n = "m_size v"
  have len: "length (elems w v) = ?n" using assms(3) by (simp add: length_elems)
  show ?thesis
  proof (cases "m_size v = Capacity_of v")
    case full: True
    let ?v' = "\<lparr>m_data = \<lparr>m_buffer = Some (next_block w), m_capacity = grown ?n\<rparr>, m_size = Suc ?n\<rparr>"
    let ?w' = "count_ctor k (w\<lparr>heap := (heap w)(next_block w \<mapsto>
           fill (Suc i) (?n - i) (\<lambda>j. blk w a ! (j - 1))
             (fill 0 i (\<lambda>j. blk w a ! j) ((replicate (grown ?n) None)[i := Some x])),
                         a := None),
       next_block := Suc (next_block w),
       objs := (objs w)(this \<mapsto> ?v'),
       n_copy := n_copy w + (if use_move tr then 0 else ?n),
       n_move := n_move w + (if use_move tr then ?n else 0),
       n_dtor := n_dtor w + ?n,
       n_alloc := Suc (n_alloc w),
       n_dealloc := Suc (n_dealloc w)\<rparr>)"
    have ne: "a \<noteq> next_block w" "next_block w \<noteq> a" using vb(4) by simp_all
    have g: "?n < grown ?n" by (simp add: grown_def)
    have v': "valid ?w' ?v'"
      using vb ne g assms(4) by (intro validI[where a="next_block w"])
        (auto simp add: nth_fill nth_list_update)
    have e: "elems ?w' ?v' = take i (elems w v) @ x # drop i (elems w v)"
      using vb assms(3,4) Some ne g len
      by (intro elems_eq_nth[OF v', where a="next_block w"])
        (auto simp add: nth_fill nth_list_update blk_elems insert_nth)
    show ?thesis
      using Emplace_grow_block[OF assms(1-3) full Some assms(4), of tr k x] v' e assms(1) full Some
      by (simp add: Capacity_of_def count_ctor_counts)
  next
    case False
    with assms(3) have room: "m_size v < Capacity_of v"
      by (simp add: valid_iff Capacity_of_def)
    let ?v' = "v\<lparr>m_size := Suc ?n\<rparr>"
    show ?thesis
    proof (cases "i = ?n")
      case True
      let ?w' = "count_ctor k (w\<lparr>heap := (heap w)(a \<mapsto> (blk w a)[?n := Some x]),
           objs := (objs w)(this \<mapsto> ?v')\<rparr>)"
      have v': "valid ?w' ?v'"
        using vb room Some by (intro validI[where a=a])
          (auto simp add: nth_list_update Capacity_of_def)
      have e: "elems ?w' ?v' = take i (elems w v) @ x # drop i (elems w v)"
        using vb assms(3) Some room len True
        by (intro elems_eq_nth[OF v', where a=a])
          (auto simp add: nth_list_update blk_elems nth_append Capacity_of_def)
      show ?thesis
        using Emplace_room_end[OF assms(1-3) room Some, of tr k x] v' e assms(1) False True Some
        by (simp add: Capacity_of_def)
    next
      case mid: False
      with assms(4) have i: "i < ?n" by simp
      let ?w' = "(count_ctor k w)\<lparr>heap := (heap w)(a \<mapsto>
          (fill (Suc i) (?n - i) (\<lambda>j. blk w a ! (j - 1)) (blk w a))[i := Some x]),
       objs := (objs w)(this \<mapsto> ?v'),
       n_copy := n_copy (count_ctor k w) + (if use_move tr then 0 else 2),
       n_move := n_move (count_ctor k w) + (if use_move tr then 1 else 0),
       n_dtor := Suc (n_dtor w)\<rparr>"
      have v': "valid ?w' ?v'"
        using vb room Some i by (intro validI[where a=a])
          (auto simp add: nth_fill nth_list_update Capacity_of_def)
      have e: "elems ?w' ?v' = take i (elems w v) @ x # drop i (elems w v)"
        using vb assms(3) Some room len i
        by (intro elems_eq_nth[OF v', where a=a])
          (auto simp add: nth_fill nth_list_update blk_elems insert_nth Capacity_of_def)
      show ?thesis
        using Emplace_room_mid[OF assms(1-3) room Some i, of tr k x] v' e assms(1) False Some
        by (simp add: Capacity_of_def)
    qed
  qed
qed

subsection \<open>\<open>Erase\<close> and \<open>Resize\<close>\<close>

lemma Erase_ok:
  assumes "sched w = []" "objs w this = Some v" "valid w v"
    "m_buffer (m_data v) = Some a" "i < m_size v"
  shows "Erase tr this (Some a, i) w = (Inr (Some a, i),
     w\<lparr>heap := (heap w)(a \<mapsto>
          (fill i (m_size v - Suc i) (\<lambda>j. blk w a ! Suc j) (blk w a))[m_size v - Suc 0 := None]),
       objs := (objs w)(this \<mapsto> v\<lparr>m_size := m_size v - 1\<rparr>),
       n_dtor := Suc (n_dtor w)\<rparr>)"
proof -
  note vb = valid_block[OF assms(3,4)]
  define n where "n = m_size v"
  define m where "m = n - Suc i"
  have n: "i < n" "n \<le> length (blk w a)"
    using assms(5) vb(1,2) by (simp_all add: n_def)
  have eq: "Suc (i + m) = n" using n(1) by (simp add: m_def)
  have live: "\<And>j. j < n \<Longrightarrow> blk w a ! j \<noteq> None"
    using vb(5) by (simp add: n_def del: not_None_eq)
  define b1 where "b1 = (if use_move tr \<and> m \<noteq> 0
     then (fill i m (\<lambda>j. blk w a ! Suc j) (blk w a))
            [i + m := Some (moved_from tr (the (blk w a ! (i + m))))]
     else fill i m (\<lambda>j. blk w a ! Suc j) (blk w a))"
  define w1 where "w1 = w\<lparr>heap := (heap w)(a \<mapsto> b1)\<rparr>"
  have 1: "(if use_move tr then std_move tr (Some a, Suc i) (n - Suc i) (Some a, i)
            else std_copy (Some a, Suc i) (n - Suc i) (Some a, i)) w = (Inr (), w1)"
  proof (cases "use_move tr")
    case False
    have "std_copy (Some a, Suc i) m (Some a, i) w =
       (Inr (), w\<lparr>heap := (heap w)(a \<mapsto> fill i m (\<lambda>j. blk w a ! Suc j) (blk w a))\<rparr>)"
      using assms(1) vb(3) n eq live
      by (intro std_copy_left_ok) auto
    with False show ?thesis by (simp add: w1_def b1_def m_def)
  next
    case True
    show ?thesis
    proof (cases m)
      case 0
      then have "w1 = w" using heap_blk_triv[of w a] vb(3) by (simp add: w1_def b1_def)
      with 0 True show ?thesis by (simp add: m_def)
    next
      case (Suc m')
      have "std_move tr (Some a, Suc i) (Suc m') (Some a, i) w =
         (Inr (), w\<lparr>heap := (heap w)(a \<mapsto> (fill i (Suc m') (\<lambda>j. blk w a ! Suc j) (blk w a))
            [i + Suc m' := Some (moved_from tr (the (blk w a ! (i + Suc m'))))])\<rparr>)"
        using assms(1) vb(3) n eq live Suc
        by (intro std_move_left_ok) auto
      with True Suc show ?thesis
        by (simp add: w1_def b1_def m_def del: std_move.simps)
    qed
  qed
  have l1: "length b1 = length (blk w a)" "b1 ! (n - Suc 0) \<noteq> None"
    using n eq live[of "n - Suc 0"] live[of n]
    by (auto simp add: b1_def nth_fill nth_list_update simp del: not_None_eq)
  define w2 where "w2 = w1\<lparr>heap := (heap w1)(a \<mapsto> (blk w1 a)[n - Suc 0 := None]),
                            n_dtor := Suc (n_dtor w1)\<rparr>"
  have 2: "destroy_at (Some a, n - Suc 0) w1 = (Inr (), w2)"
    unfolding w2_def using l1 n
    by (intro destroy_at_ok) (auto simp add: w1_def)
  have "Erase tr this (Some a, i) w =
     (Inr (Some a, i), w2\<lparr>objs := (objs w2)(this \<mapsto> v\<lparr>m_size := n - 1\<rparr>)\<rparr>)"
    using assms(2) n(1)
    by (simp add: Erase_def bnd_def this_get_ok GetAddress_def
        ptr_add_def Vector_begin_def Vector_end_def Let_def assms(4) n_def[symmetric] 1 2
        this_put_def split del: if_split cong: if_cong)
  also have "w2\<lparr>objs := (objs w2)(this \<mapsto> v\<lparr>m_size := n - 1\<rparr>)\<rparr> =
     w\<lparr>heap := (heap w)(a \<mapsto>
          (fill i (m_size v - Suc i) (\<lambda>j. blk w a ! Suc j) (blk w a))[m_size v - Suc 0 := None]),
       objs := (objs w)(this \<mapsto> v\<lparr>m_size := m_size v - 1\<rparr>),
       n_dtor := Suc (n_dtor w)\<rparr>"
  proof -
    have "b1[n - Suc 0 := None] = (fill i (n - Suc i) (\<lambda>j. blk w a ! Suc j) (blk w a))[n - Suc 0 := None]"
      using n eq by (intro nth_equalityI) (auto simp add: b1_def m_def nth_list_update)
    then show ?thesis
      by (simp add: w2_def w1_def n_def del: fun_upd_apply)
  qed
  finally show ?thesis .
qed

lemma erase_nth:
  "i < length xs \<Longrightarrow> j < length xs - 1 \<Longrightarrow>
   (take i xs @ drop (Suc i) xs) ! j = (if j < i then xs ! j else xs ! Suc j)"
  by (auto simp add: nth_append min_def)

lemma Erase_spec:
  assumes "sched w = []" "objs w this = Some v" "valid w v" "i < m_size v"
  shows "\<exists>w' v'. Erase tr this (m_buffer (m_data v), i) w = (Inr (m_buffer (m_data v'), i), w') \<and>
           objs w' this = Some v' \<and> valid w' v' \<and> sched w' = [] \<and>
           elems w' v' = take i (elems w v) @ drop (Suc i) (elems w v) \<and>
           m_size v' = m_size v - 1 \<and> Capacity_of v' = Capacity_of v"
proof -
  obtain a where Some: "m_buffer (m_data v) = Some a"
    using valid_null[OF assms(3)] assms(4) by (cases "m_buffer (m_data v)") auto
  note vb = valid_block[OF assms(3) Some]
  let ?n = "m_size v"
  have len: "length (elems w v) = ?n" using assms(3) by (simp add: length_elems)
  let ?v' = "v\<lparr>m_size := ?n - 1\<rparr>"
  let ?w' = "w\<lparr>heap := (heap w)(a \<mapsto>
          (fill i (?n - Suc i) (\<lambda>j. blk w a ! Suc j) (blk w a))[?n - Suc 0 := None]),
       objs := (objs w)(this \<mapsto> ?v'),
       n_dtor := Suc (n_dtor w)\<rparr>"
  have v': "valid ?w' ?v'"
    using vb Some assms(4) by (intro validI[where a=a])
      (auto simp add: nth_fill nth_list_update)
  have e: "elems ?w' ?v' = take i (elems w v) @ drop (Suc i) (elems w v)"
    using vb assms(3,4) Some len
    by (intro elems_eq_nth[OF v', where a=a])
      (auto simp add: nth_fill nth_list_update blk_elems erase_nth)
  show ?thesis
    using Erase_ok[OF assms(1-3) Some assms(4), of tr] v' e assms(1) Some
    by (simp add: Capacity_of_def)
qed

lemma Resize_spec:
  assumes "sched w = []" "objs w this = Some v" "valid w v"
  shows "\<exists>w' v'. Resize tr this c w = (Inr (), w') \<and> objs w' this = Some v' \<and> valid w' v' \<and>
           sched w' = [] \<and> m_size v' = c \<and>
           elems w' v' = (if c < m_size v then take c (elems w v)
                          else elems w v @ replicate (c - m_size v) (default_value tr)) \<and>
           (c = m_size v \<longrightarrow> w' = w \<and> v' = v)"
proof -
  obtain w1 v1 where R: "Reserve tr this c w = (Inr (), w1)" "objs w1 this = Some v1"
      "valid w1 v1" "sched w1 = []" "elems w1 v1 = elems w v" "m_size v1 = m_size v"
      "if c \<le> Capacity_of v then w1 = w \<and> v1 = v else Capacity_of v1 = c"
    using Reserve_post[OF assms, of tr c] by (auto split: if_splits)
  define n where "n = m_size v"
  have len: "length (elems w v) = n" using assms(3) by (simp add: length_elems n_def)
  have cap1: "c \<le> Capacity_of v1" using R(7) by (auto split: if_splits)
  have n1: "n \<le> Capacity_of v1" using R(3,6) by (simp add: valid_iff Capacity_of_def n_def)
  consider (same) "c = n" | (shrink) "c < n" | (grow) "n < c" by linarith
  then show ?thesis
  proof cases
    case same
    then have "c \<le> Capacity_of v" using assms(3) by (simp add: valid_iff Capacity_of_def n_def)
    with R(7) have w1: "w1 = w" "v1 = v" by simp_all
    have "(objs w)(this \<mapsto> v) = objs w" using assms(2) by (simp add: map_upd_triv)
    then have "Resize tr this c w = (Inr (), w)"
      using R(1) assms(2) same w1
      by (simp add: Resize_def bnd_def this_get_ok n_def uninitialized_value_construct_n_def
           this_put_def)
    then show ?thesis using assms same by (simp add: n_def)
  next
    case shrink
    then have "0 < m_size v1" using R(6) by (simp add: n_def)
    then obtain a where Some: "m_buffer (m_data v1) = Some a"
      using valid_null[OF R(3)] by (cases "m_buffer (m_data v1)") auto
    note vb = valid_block[OF R(3) Some]
    define w2 where "w2 = w1\<lparr>heap := (heap w1)(a \<mapsto> fill c (n - c) (\<lambda>_. None) (blk w1 a)),
               n_dtor := n_dtor w1 + (n - c)\<rparr>"
    have 2: "destroy_n (Some a, c) (n - c) w1 = (Inr (), w2)"
      unfolding w2_def using vb shrink R(6)
      by (intro destroy_n_ok) (auto simp add: n_def)
    let ?v' = "v1\<lparr>m_size := c\<rparr>"
    let ?w' = "w2\<lparr>objs := (objs w2)(this \<mapsto> ?v')\<rparr>"
    have run: "Resize tr this c w = (Inr (), ?w')"
      using R(1,2,6) shrink
      by (simp add: Resize_def bnd_def this_get_ok GetAddress_def ptr_add_def Some
           n_def[symmetric] 2 this_put_def)
    have v': "valid ?w' ?v'"
      using vb Some shrink R(6) by (intro validI[where a=a])
        (auto simp add: w2_def nth_fill n_def)
    have e: "elems ?w' ?v' = take c (elems w v)"
      using vb R(3,5,6) Some shrink len
      by (intro elems_eq_nth[OF v', where a=a])
        (auto simp add: w2_def nth_fill n_def blk_elems[OF R(3) Some])
    show ?thesis
      using run v' e R(4) shrink by (simp add: w2_def n_def)
  next
    case grow
    then have "0 < Capacity_of v1" using cap1 by simp
    then obtain a where Some: "m_buffer (m_data v1) = Some a"
      using valid_null[OF R(3)] by (cases "m_buffer (m_data v1)") (auto simp add: Capacity_of_def)
    note vb = valid_block[OF R(3) Some]
    define w2 where "w2 = w1\<lparr>heap := (heap w1)(a \<mapsto>
                 fill (n + 0) (c - n) (\<lambda>_. Some (default_value tr)) (blk w1 a)),
               n_default := n_default w1 + (c - n)\<rparr>"
    have "uninit_value_loop tr (Some a, n) 0 (c - n) w1 = (Inr (), w2)"
      unfolding w2_def using vb grow R(4) cap1
      by (intro uninit_value_loop_ok) (auto simp add: Capacity_of_def)
    then have 2: "uninitialized_value_construct_n tr (Some a, n) (c - n) w1 = (Inr (), w2)"
      by (simp add: uninitialized_value_construct_n_def)
    let ?v' = "v1\<lparr>m_size := c\<rparr>"
    let ?w' = "w2\<lparr>objs := (objs w2)(this \<mapsto> ?v')\<rparr>"
    have run: "Resize tr this c w = (Inr (), ?w')"
      using R(1,2,6) grow
      by (simp add: Resize_def bnd_def this_get_ok GetAddress_def ptr_add_def Some
           n_def[symmetric] 2 this_put_def)
    have v': "valid ?w' ?v'"
      using vb Some grow R(6) cap1 by (intro validI[where a=a])
        (auto simp add: w2_def nth_fill n_def Capacity_of_def)
    have e: "elems ?w' ?v' = elems w v @ replicate (c - n) (default_value tr)"
      using vb R(3,5,6) Some grow len cap1
      by (intro elems_eq_nth[OF v', where a=a])
        (auto simp add: w2_def nth_fill n_def blk_elems[OF R(3) Some] nth_append Capacity_of_def)
    show ?thesis
      using run v' e R(4) grow by (simp add: w2_def n_def)
  qed
qed

subsection \<open>Reading a vector; sequences of appends; \<open>PopBack\<close>\<close>

lemma grown_max: "grown n = max 1 (2 * n)"
  by (simp add: grown_def)

lemma Size_ok: "objs w this = Some v \<Longrightarrow> Size this w = (Inr (m_size v), w)"
  by (simp add: Size_def bnd_def this_get_ok)

lemma Capacity_ok: "objs w this = Some v \<Longrightarrow> Capacity this w = (Inr (Capacity_of v), w)"
  by (simp add: Capacity_def bnd_def this_get_ok)

lemma load_elem:
  assumes "valid w v" "i < m_size v"
  shows "load (m_buffer (m_data v), i) w = (Inr (elems w v ! i), w)"
proof -
  obtain a where Some: "m_buffer (m_data v) = Some a"
    using valid_null[OF assms(1)] assms(2) by (cases "m_buffer (m_data v)") auto
  note vb = valid_block[OF assms(1) Some]
  show ?thesis
    using vb(1,2) assms(2) blk_elems[OF assms(1) Some assms(2)]
    by (simp add: Some load_ok)
qed

lemma at_ok:
  assumes "objs w this = Some v" "valid w v" "i < m_size v"
  shows "at this i w = (Inr (elems w v ! i), w)"
proof -
  have "i < m_capacity (m_data v)" using assms(2,3) by (simp add: valid_iff)
  then show ?thesis
    using assms load_elem[OF assms(2,3)]
    by (simp add: at_def Vector_index_def RawMemory_index_def bnd_def this_get_ok)
qed

lemma valid_Vector_default: "valid w Vector_default"
  by (simp add: valid_def Vector_default_def RawMemory_default_def block_def)

lemma elems_Vector_default: "elems w Vector_default = []"
  by (simp add: elems_def Vector_default_def RawMemory_default_def block_def)

lemma EmplaceBack_spec:
  assumes "sched w = []" "objs w this = Some v" "valid w v"
  shows "\<exists>w' v'. EmplaceBack tr this (k, x) w = (Inr (m_buffer (m_data v'), m_size v), w') \<and>
           objs w' this = Some v' \<and>
           valid w' v' \<and> sched w' = [] \<and> elems w' v' = elems w v @ [x] \<and>
           m_size v' = Suc (m_size v) \<and>
           Capacity_of v' = (if m_size v = Capacity_of v then grown (m_size v) else Capacity_of v) \<and>
           n_copy w' = n_copy w + (if k = CopyCtor then 1 else 0) +
             (if m_size v = Capacity_of v \<and> \<not> use_move tr then m_size v else 0) \<and>
           n_move w' = n_move w + (if k = MoveCtor then 1 else 0) +
             (if m_size v = Capacity_of v \<and> use_move tr then m_size v else 0)"
proof -
  obtain w' v' where P: "PushBackImpl tr this (k, x) w = (Inr (), w')" "objs w' this = Some v'"
     "valid w' v' \<and> sched w' = [] \<and> elems w' v' = elems w v @ [x] \<and>
           m_size v' = Suc (m_size v) \<and>
           Capacity_of v' = (if m_size v = Capacity_of v then grown (m_size v) else Capacity_of v) \<and>
           n_copy w' = n_copy w + (if k = CopyCtor then 1 else 0) +
             (if m_size v = Capacity_of v \<and> \<not> use_move tr then m_size v else 0) \<and>
           n_move w' = n_move w + (if k = MoveCtor then 1 else 0) +
             (if m_size v = Capacity_of v \<and> use_move tr then m_size v else 0)"
    using PushBackImpl_spec[OF assms, of tr k x] by blast
  have "EmplaceBack tr this (k, x) w = (Inr (m_buffer (m_data v'), m_size v), w')"
    using P by (simp add: EmplaceBack_PushBackImpl bnd_def this_get_ok GetAddress_def ptr_add_def)
  with P show ?thesis by blast
qed

lemma push_all_spec:
  assumes "sched w = []" "objs w this = Some v" "valid w v"
  shows "\<exists>w' v'. push_all tr this args w = (Inr (), w') \<and> objs w' this = Some v' \<and>
           valid w' v' \<and> sched w' = [] \<and> elems w' v' = elems w v @ map snd args"
  using assms
proof (induction args arbitrary: w v)
  case Nil
  then show ?case by simp
next
  case (Cons a args)
  obtain k x where a: "a = (k, x)" by (cases a)
  obtain w1 v1 where P: "PushBackImpl tr this (k, x) w = (Inr (), w1)" "objs w1 this = Some v1"
     "valid w1 v1" "sched w1 = []" "elems w1 v1 = elems w v @ [x]"
    using PushBackImpl_spec[OF Cons.prems, of tr k x] by blast
  obtain w' v' where Q: "push_all tr this args w1 = (Inr (), w')" "objs w' this = Some v'"
     "valid w' v'" "sched w' = []" "elems w' v' = elems w1 v1 @ map snd args"
    using Cons.IH[OF P(4,2,3)] by blast
  have "push_all tr this (a # args) w = (Inr (), w')"
    using P(1) Q(1) by (simp add: a PushBack_def bnd_def)
  with Q P(5) show ?case by (auto simp add: a)
qed

lemma PopBack_spec:
  assumes "sched w = []" "objs w this = Some v" "valid w v" "0 < m_size v"
  shows "\<exists>w' v'. PopBack this w = (Inr (), w') \<and> objs w' this = Some v' \<and>
           valid w' v' \<and> sched w' = [] \<and> elems w' v' = butlast (elems w v) \<and>
           Capacity_of v' = Capacity_of v"
proof -
  obtain a where Some: "m_buffer (m_data v) = Some a"
    using valid_null[OF assms(3)] assms(4) by (cases "m_buffer (m_data v)") auto
  note vb = valid_block[OF assms(3) Some]
  define n where "n = m_size v"
  have n: "0 < n" "n \<le> length (blk w a)" using assms(4) vb(1,2) by (simp_all add: n_def)
  let ?v' = "v\<lparr>m_size := n - 1\<rparr>"
  let ?w' = "w\<lparr>heap := (heap w)(a \<mapsto> (blk w a)[n - 1 := None]),
               n_dtor := Suc (n_dtor w), objs := (objs w)(this \<mapsto> ?v')\<rparr>"
  have 1: "destroy_at (Some a, n - Suc 0) w =
      (Inr (), w\<lparr>heap := (heap w)(a \<mapsto> (blk w a)[n - Suc 0 := None]), n_dtor := Suc (n_dtor w)\<rparr>)"
    using n vb(5)[of "n - Suc 0"] by (intro destroy_at_ok) (auto simp add: n_def)
  have run: "PopBack this w = (Inr (), ?w')"
    using assms(2,4)
    by (simp add: PopBack_def bnd_def this_get_ok Vector_end_def GetAddress_def ptr_add_def Some
         n_def[symmetric] 1 this_put_def)
  have v': "valid ?w' ?v'"
    using vb Some n by (intro validI[where a=a]) (auto simp add: nth_list_update n_def)
  have len: "length (elems w v) = n" using assms(3) by (simp add: length_elems n_def)
  have e: "elems ?w' ?v' = butlast (elems w v)"
    using vb Some n len assms(3)
    by (intro elems_eq_nth[OF v', where a=a])
       (auto simp add: nth_list_update n_def nth_butlast blk_elems)
  show ?thesis using run v' e assms(1) by (simp add: Capacity_of_def)
qed

section \<open>The example worlds\<close>

lemma valid_roomy: "valid roomy_world roomy_vector"
  by (simp add: valid_def roomy_world_def roomy_vector_def block_def blk_def)

lemma elems_roomy: "elems roomy_world roomy_vector = [10, 20, 30]"
  by (simp add: elems_def roomy_world_def roomy_vector_def block_def blk_def)

lemma valid_full: "valid full_world full_vector"
  by (simp add: valid_def full_world_def full_vector_def block_def blk_def)

lemma elems_full: "elems full_world full_vector = [10, 20]"
  by (simp add: elems_def full_world_def full_vector_def block_def blk_def)

section \<open>Exceptions during a transplant\<close>

text \<open>
  \<open>Reserve\<close> constructs nothing in the new block but the copies, and
  \<open>std::uninitialized_copy_n\<close> destroys the copies it has made when one throws.  In
  the run below the copy of the second element throws: the vector keeps its block and
  its two elements, the new block is freed, and once the vector is destroyed every
  object constructed has been destroyed.
\<close>

lemma reserve_copy_failure_balanced:
  "(let w1 = snd (reserve_run (empty_world reserve_sched));
        w2 = snd (destroy_Vector 0 w1);
        v = \<lparr>m_data = \<lparr>m_buffer = Some 0, m_capacity = 4\<rparr>, m_size = 2\<rparr>
    in fst (reserve_run (empty_world reserve_sched)) = Inl ElemThrow \<and>
       objs w1 0 = Some v \<and> elems w1 v = [10, 20] \<and> valid w1 v \<and>
       n_alloc w1 = 2 \<and> n_dealloc w1 = 1 \<and> n_ctor w1 = 3 \<and> n_dtor w1 = 1 \<and>
       fst (destroy_Vector 0 w1) = Inr () \<and>
       n_alloc w2 = 2 \<and> n_dealloc w2 = 2 \<and> n_ctor w2 = 3 \<and> n_dtor w2 = 3)"
  by code_simp

text \<open>
  The growth branches of \<open>EmplaceBack\<close> and \<open>Emplace\<close> construct the new element in
  the new block before the transplant, as \<open>PushBackImpl\<close> does, and nothing destroys
  it when the transplant throws: two objects constructed, and only the element of the
  vector left to destroy.
\<close>

lemma emplace_copy_failure_unbalanced:
  "(let w1 = snd (leak_run_back (empty_world leak_sched));
        w2 = snd (leak_run_emplace (empty_world leak_sched));
        v = \<lparr>m_data = \<lparr>m_buffer = Some 0, m_capacity = 1\<rparr>, m_size = 1\<rparr>
    in fst (leak_run_back (empty_world leak_sched)) = Inl ElemThrow \<and>
       objs w1 0 = Some v \<and> elems w1 v = [10] \<and> n_ctor w1 = 2 \<and> n_dtor w1 = 0 \<and>
       fst (leak_run_emplace (empty_world leak_sched)) = Inl ElemThrow \<and>
       objs w2 0 = Some v \<and> elems w2 v = [10] \<and> n_ctor w2 = 2 \<and> n_dtor w2 = 0)"
  by code_simp

section \<open>The size of an allocation\<close>

text \<open>
  With objects of eight bytes, \<open>2 ^ 61 + 1\<close> objects do not fit: the product wraps, and
  \<open>operator new\<close> is asked for eight bytes.
\<close>

lemma alloc_bytes_fits: "fits tr n \<Longrightarrow> alloc_bytes tr n = n * size_of tr"
  by (simp add: fits_def alloc_bytes_def)

lemma alloc_bytes_wraps: "\<not> fits copying (2 ^ 61 + 1) \<and> alloc_bytes copying (2 ^ 61 + 1) = 8"
  by (simp add: fits_def alloc_bytes_def copying_def SIZE_MAX_def)

section \<open>Properties of the interface\<close>

text \<open>
  C1.  A copy that throws during the growth transplant of \<open>PushBack\<close>.  The vector
  \<open>[10]\<close> is full; \<open>PushBack(20)\<close> allocates a block of two slots, copy-constructs 20
  into slot 1 of it, and the copy of 10 into slot 0 throws.  The exception leaves the
  vector as it was: the same block, length 1, the element 10, and the new block is
  freed.  But the object constructed in slot 1 of the new block is never destroyed:
  two objects have been constructed and none destroyed while the vector holds one
  element, and after the destructor of the vector has run the counts are two
  constructions and one destruction.  The length and the contents are those of before
  the call; the constructions and the destructions do not balance.
\<close>

theorem growth_copy_failure_leaks:
  "(let w0 = snd (leak_setup (empty_world leak_sched));
        w1 = snd (leak_run (empty_world leak_sched));
        w2 = snd (destroy_Vector 0 w1);
        v = \<lparr>m_data = \<lparr>m_buffer = Some 0, m_capacity = 1\<rparr>, m_size = 1\<rparr>
    in fst (leak_setup (empty_world leak_sched)) = Inr () \<and>
       objs w0 0 = Some v \<and> elems w0 v = [10] \<and> n_ctor w0 = 1 \<and> n_dtor w0 = 0 \<and>
       fst (leak_run (empty_world leak_sched)) = Inl ElemThrow \<and>
       objs w1 0 = Some v \<and> elems w1 v = [10] \<and> valid w1 v \<and>
       n_alloc w1 = 2 \<and> n_dealloc w1 = 1 \<and> n_ctor w1 = 2 \<and> n_dtor w1 = 0 \<and>
       fst (destroy_Vector 0 w1) = Inr () \<and>
       n_alloc w2 = 2 \<and> n_dealloc w2 = 2 \<and> n_ctor w2 = 2 \<and> n_dtor w2 = 1)"
  by code_simp

text \<open>
  C2.  Appending the values of a list to an empty vector, each by \<open>PushBack\<close> of a copy
  or of a moved value, in any mixture and with any transplant policy, when no call
  throws: the run returns, \<open>Size()\<close> is the length of the list, and the element at each
  index is the value appended at that index.
\<close>

theorem appends_in_order:
  assumes "sched w = []" "objs w this = Some Vector_default"
  shows "\<exists>w'. push_all tr this args w = (Inr (), w') \<and>
           Size this w' = (Inr (length args), w') \<and>
           (\<forall>i<length args. at this i w' = (Inr (snd (args ! i)), w'))"
proof -
  obtain w' v' where P: "push_all tr this args w = (Inr (), w')" "objs w' this = Some v'"
      "valid w' v'" "elems w' v' = elems w Vector_default @ map snd args"
    using push_all_spec[OF assms valid_Vector_default, of tr args] by blast
  have e: "elems w' v' = map snd args" using P(4) by (simp add: elems_Vector_default)
  then have n: "m_size v' = length args" using length_elems[OF P(3)] by simp
  have "at this i w' = (Inr (snd (args ! i)), w')" if "i < length args" for i
    using at_ok[OF P(2,3), of i] that e n by simp
  then show ?thesis using P(1) Size_ok[OF P(2)] n by auto
qed

theorem appends_in_order_witness:
  "sched blank_world = [] \<and> objs blank_world 0 = Some Vector_default \<and>
   (\<exists>w'. push_all copying 0 [(CopyCtor, 1), (MoveCtor, 2), (CopyCtor, 3)] blank_world = (Inr (), w') \<and>
      Size 0 w' = (Inr 3, w') \<and>
      at 0 0 w' = (Inr 1, w') \<and> at 0 1 w' = (Inr 2, w') \<and> at 0 2 w' = (Inr 3, w'))"
proof -
  have h1: "sched blank_world = []" by (simp add: blank_world_def empty_world_def)
  have h2: "objs blank_world 0 = Some Vector_default" by (simp add: blank_world_def)
  obtain w' where P: "push_all copying 0 [(CopyCtor, 1), (MoveCtor, 2), (CopyCtor, 3)] blank_world = (Inr (), w')"
      "Size 0 w' = (Inr (length [(CopyCtor, 1::nat), (MoveCtor, 2), (CopyCtor, 3)]), w')"
      "\<forall>i<length [(CopyCtor, 1::nat), (MoveCtor, 2), (CopyCtor, 3)].
         at 0 i w' = (Inr (snd ([(CopyCtor, 1::nat), (MoveCtor, 2), (CopyCtor, 3)] ! i)), w')"
    using appends_in_order[OF h1 h2, of copying "[(CopyCtor, 1), (MoveCtor, 2), (CopyCtor, 3)]"]
    by blast
  from P(3) have "at 0 0 w' = (Inr 1, w')" "at 0 1 w' = (Inr 2, w')" "at 0 2 w' = (Inr 3, w')"
    by (simp_all add: nth_Cons')
  with h1 h2 P(1,2) show ?thesis by (intro conjI exI[of _ w']) simp_all
qed

text \<open>
  C3.  The transplant policy, counted by the constructor calls.  When no call throws, a
  \<open>Reserve\<close> beyond the capacity, and a \<open>PushBack\<close>, an \<open>EmplaceBack\<close> and an \<open>Emplace\<close>
  at any position of a full vector, construct the new element (if any) once, by the
  constructor the caller named, and transplant the \<open>size_\<close> existing elements: by that
  many copy constructions and no move construction when the move constructor may throw
  and the type is copy-constructible, and by that many move constructions and no copy
  construction when the move constructor is \<open>noexcept\<close> or the type is not
  copy-constructible.
\<close>

theorem transplant_copies_or_moves:
  assumes "sched w = []" "objs w this = Some v" "valid w v"
  shows "(Capacity_of v < c \<longrightarrow>
            (\<exists>w'. Reserve tr this c w = (Inr (), w') \<and>
               n_copy w' = n_copy w + (if use_move tr then 0 else m_size v) \<and>
               n_move w' = n_move w + (if use_move tr then m_size v else 0))) \<and>
         (m_size v = Capacity_of v \<longrightarrow>
            (\<exists>w'. PushBack tr this (k, x) w = (Inr (), w') \<and>
               n_copy w' = n_copy w + (if k = CopyCtor then 1 else 0) +
                 (if use_move tr then 0 else m_size v) \<and>
               n_move w' = n_move w + (if k = MoveCtor then 1 else 0) +
                 (if use_move tr then m_size v else 0)) \<and>
            (\<exists>w' p. EmplaceBack tr this (k, x) w = (Inr p, w') \<and>
               n_copy w' = n_copy w + (if k = CopyCtor then 1 else 0) +
                 (if use_move tr then 0 else m_size v) \<and>
               n_move w' = n_move w + (if k = MoveCtor then 1 else 0) +
                 (if use_move tr then m_size v else 0)) \<and>
            (\<forall>i\<le>m_size v.
               \<exists>w' p. Emplace tr this (ptr_add (Vector_begin v) i) (k, x) w = (Inr p, w') \<and>
                 n_copy w' = n_copy w + (if k = CopyCtor then 1 else 0) +
                   (if use_move tr then 0 else m_size v) \<and>
                 n_move w' = n_move w + (if k = MoveCtor then 1 else 0) +
                   (if use_move tr then m_size v else 0)))"
proof -
  have r: "\<exists>w'. Reserve tr this c w = (Inr (), w') \<and>
               n_copy w' = n_copy w + (if use_move tr then 0 else m_size v) \<and>
               n_move w' = n_move w + (if use_move tr then m_size v else 0)"
    if "Capacity_of v < c"
    using Reserve_post[OF assms, of tr c] that by auto
  have a: "\<exists>w'. PushBack tr this (k, x) w = (Inr (), w') \<and>
               n_copy w' = n_copy w + (if k = CopyCtor then 1 else 0) +
                 (if use_move tr then 0 else m_size v) \<and>
               n_move w' = n_move w + (if k = MoveCtor then 1 else 0) +
                 (if use_move tr then m_size v else 0)"
    if "m_size v = Capacity_of v"
    using PushBackImpl_spec[OF assms, of tr k x] that
    by (auto simp add: PushBack_def)
  have b: "\<exists>w' p. EmplaceBack tr this (k, x) w = (Inr p, w') \<and>
               n_copy w' = n_copy w + (if k = CopyCtor then 1 else 0) +
                 (if use_move tr then 0 else m_size v) \<and>
               n_move w' = n_move w + (if k = MoveCtor then 1 else 0) +
                 (if use_move tr then m_size v else 0)"
    if "m_size v = Capacity_of v"
    using EmplaceBack_spec[OF assms, of tr k x] that by auto
  have e: "\<exists>w' p. Emplace tr this (ptr_add (Vector_begin v) i) (k, x) w = (Inr p, w') \<and>
                 n_copy w' = n_copy w + (if k = CopyCtor then 1 else 0) +
                   (if use_move tr then 0 else m_size v) \<and>
                 n_move w' = n_move w + (if k = MoveCtor then 1 else 0) +
                   (if use_move tr then m_size v else 0)"
    if "m_size v = Capacity_of v" "i \<le> m_size v" for i
    using Emplace_spec[OF assms that(2), of tr k x] that(1)
    by (auto simp add: ptr_add_def Vector_begin_def GetAddress_def)
  show ?thesis using r a b e by blast
qed

theorem transplant_copies_or_moves_witness:
  "sched full_world = [] \<and> objs full_world 0 = Some full_vector \<and> valid full_world full_vector \<and>
   Capacity_of full_vector < 5 \<and> m_size full_vector = Capacity_of full_vector \<and>
   (\<exists>w'. Reserve copying 0 5 full_world = (Inr (), w') \<and> n_copy w' = 4 \<and> n_move w' = 0) \<and>
   (\<exists>w'. Reserve moving 0 5 full_world = (Inr (), w') \<and> n_copy w' = 2 \<and> n_move w' = 2) \<and>
   (\<exists>w'. PushBack copying 0 (MoveCtor, 30) full_world = (Inr (), w') \<and> n_copy w' = 4 \<and> n_move w' = 1) \<and>
   (\<exists>w'. PushBack moving 0 (CopyCtor, 30) full_world = (Inr (), w') \<and> n_copy w' = 3 \<and> n_move w' = 2)"
proof -
  have h1: "sched full_world = []" by (simp add: full_world_def)
  have h2: "objs full_world 0 = Some full_vector" by (simp add: full_world_def)
  have h4: "m_size full_vector = Capacity_of full_vector" "Capacity_of full_vector < 5"
    by (simp_all add: full_vector_def Capacity_of_def)
  have c: "m_size full_vector = 2" "n_copy full_world = 2" "n_move full_world = 0"
     "\<not> use_move copying" "use_move moving"
    by (simp_all add: full_vector_def full_world_def use_move_def copying_def moving_def)
  note T = transplant_copies_or_moves[OF h1 h2 valid_full]
  have a: "\<exists>w'. Reserve copying 0 5 full_world = (Inr (), w') \<and> n_copy w' = 4 \<and> n_move w' = 0"
    using T[of 5 copying, THEN conjunct1] h4 c by simp
  have b: "\<exists>w'. Reserve moving 0 5 full_world = (Inr (), w') \<and> n_copy w' = 2 \<and> n_move w' = 2"
    using T[of 5 moving, THEN conjunct1] h4 c by simp
  have d: "\<exists>w'. PushBack copying 0 (MoveCtor, 30) full_world = (Inr (), w') \<and> n_copy w' = 4 \<and> n_move w' = 1"
    using T[of 5 copying MoveCtor 30, THEN conjunct2] h4 c by simp
  have e: "\<exists>w'. PushBack moving 0 (CopyCtor, 30) full_world = (Inr (), w') \<and> n_copy w' = 3 \<and> n_move w' = 2"
    using T[of 5 moving CopyCtor 30, THEN conjunct2] h4 c by simp
  show ?thesis using h1 h2 h4 valid_full a b d e by blast
qed

text \<open>
  C4.  Insertion before position \<open>i\<close> of a vector of length \<open>L\<close>, for \<open>i \<le> L\<close>, when no call
  throws.  \<open>Emplace\<close> and \<open>Insert\<close> return the same result: the vector has length
  \<open>L + 1\<close>, its element at \<open>i\<close> is the inserted value, the elements below \<open>i\<close> are where
  they were, each element that was at an index \<open>j\<close> from \<open>i\<close> on is at \<open>j + 1\<close>, and the
  iterator returned is \<open>begin() + i\<close> of the vector after the insertion, where the
  inserted value is read.
\<close>

theorem insert_before_position:
  assumes "sched w = []" "objs w this = Some v" "valid w v" "i \<le> m_size v"
  shows "\<exists>w' v' p. Emplace tr this (ptr_add (Vector_begin v) i) (k, x) w = (Inr p, w') \<and>
           Insert tr this (ptr_add (Vector_begin v) i) (k, x) w = (Inr p, w') \<and>
           objs w' this = Some v' \<and> valid w' v' \<and>
           m_size v' = Suc (m_size v) \<and>
           elems w' v' ! i = x \<and>
           (\<forall>j<i. elems w' v' ! j = elems w v ! j) \<and>
           (\<forall>j. i \<le> j \<and> j < m_size v \<longrightarrow> elems w' v' ! Suc j = elems w v ! j) \<and>
           p = ptr_add (Vector_begin v') i \<and> load p w' = (Inr x, w')"
proof -
  obtain w' v' where E: "Emplace tr this (m_buffer (m_data v), i) (k, x) w =
             (Inr (m_buffer (m_data v'), i), w')"
      "objs w' this = Some v'" "valid w' v'"
      "elems w' v' = take i (elems w v) @ x # drop i (elems w v)"
      "m_size v' = Suc (m_size v)"
    using Emplace_spec[OF assms, of tr k x] by blast
  have len: "length (elems w v) = m_size v" using assms(3) by (rule length_elems)
  have n: "elems w' v' ! j = (if j < i then elems w v ! j else if j = i then x else elems w v ! (j - 1))"
    if "j \<le> m_size v" for j
    using that assms(4) len by (simp add: E(4) insert_nth)
  have l: "load (m_buffer (m_data v'), i) w' = (Inr x, w')"
    using load_elem[OF E(3), of i] assms(4) E(5) n[of i] by simp
  show ?thesis
    using E(1,2,3,5) n l assms(4)
    by (intro exI[of _ w'] exI[of _ v'] exI[of _ "(m_buffer (m_data v'), i)"])
       (simp add: Insert_def ptr_add_def Vector_begin_def GetAddress_def)
qed

theorem insert_before_position_witness:
  "sched roomy_world = [] \<and> objs roomy_world 0 = Some roomy_vector \<and> valid roomy_world roomy_vector \<and>
   (1::nat) \<le> m_size roomy_vector \<and>
   (\<exists>w' v'. Insert copying 0 (Some 0, 1) (CopyCtor, 99) roomy_world = (Inr (Some 0, 1), w') \<and>
      objs w' 0 = Some v' \<and> m_size v' = 4 \<and>
      elems w' v' ! 0 = 10 \<and> elems w' v' ! 1 = 99 \<and> elems w' v' ! 2 = 20 \<and> elems w' v' ! 3 = 30 \<and>
      load (Some 0, 1) w' = (Inr 99, w'))"
proof -
  have h1: "sched roomy_world = []" by (simp add: roomy_world_def)
  have h2: "objs roomy_world 0 = Some roomy_vector" by (simp add: roomy_world_def)
  have h4: "(1::nat) \<le> m_size roomy_vector" by (simp add: roomy_vector_def)
  have c: "m_size roomy_vector = 3" "ptr_add (Vector_begin roomy_vector) 1 = (Some 0, 1)"
    by (simp_all add: roomy_vector_def ptr_add_def Vector_begin_def GetAddress_def)
  obtain w' v' p where P:
      "Insert copying 0 (Some 0, 1) (CopyCtor, 99) roomy_world = (Inr p, w')"
      "objs w' 0 = Some v'" "valid w' v'" "m_size v' = 4" "elems w' v' ! 1 = 99"
      "\<forall>j<1. elems w' v' ! j = elems roomy_world roomy_vector ! j"
      "\<forall>j. 1 \<le> j \<and> j < 3 \<longrightarrow> elems w' v' ! Suc j = elems roomy_world roomy_vector ! j"
      "p = ptr_add (Vector_begin v') 1" "load p w' = (Inr 99, w')"
    using insert_before_position[OF h1 h2 valid_roomy h4, of copying CopyCtor 99] c by auto
  have b: "m_buffer (m_data v') = Some 0"
    using P(1) Emplace_room_mid[OF h1 h2 valid_roomy, of 0 1 copying CopyCtor 99]
    by (simp add: Insert_def roomy_vector_def Capacity_of_def P(8) ptr_add_def Vector_begin_def
          GetAddress_def)
  have "elems w' v' ! 0 = 10" "elems w' v' ! 2 = 20" "elems w' v' ! 3 = 30"
    using P(6) P(7)[rule_format, of 1] P(7)[rule_format, of 2]
    by (simp_all add: elems_roomy numeral_2_eq_2 numeral_3_eq_3)
  then show ?thesis
    using h1 h2 h4 valid_roomy P b
    by (intro conjI exI[of _ w'] exI[of _ v'])
       (simp_all add: ptr_add_def Vector_begin_def GetAddress_def)
qed

text \<open>
  C5.  Erasure at position \<open>i\<close> of a vector of length \<open>L\<close>, for \<open>i < L\<close>, when no call
  throws.  The vector has length \<open>L - 1\<close>, the elements below \<open>i\<close> are where they were,
  each element that was at an index \<open>j + 1\<close> above \<open>i\<close> is at \<open>j\<close>, and the iterator
  returned is \<open>begin() + i\<close>: the element that followed the erased one is read there,
  or it is \<open>end()\<close> when the erased element was the last.
\<close>

theorem erase_at_position:
  assumes "sched w = []" "objs w this = Some v" "valid w v" "i < m_size v"
  shows "\<exists>w' v' p. Erase tr this (ptr_add (Vector_begin v) i) w = (Inr p, w') \<and>
           objs w' this = Some v' \<and> valid w' v' \<and>
           m_size v' = m_size v - 1 \<and>
           (\<forall>j<i. elems w' v' ! j = elems w v ! j) \<and>
           (\<forall>j. i < j \<and> j < m_size v \<longrightarrow> elems w' v' ! (j - 1) = elems w v ! j) \<and>
           p = ptr_add (Vector_begin v') i \<and>
           (if Suc i < m_size v then load p w' = (Inr (elems w v ! Suc i), w')
            else p = Vector_end v')"
proof -
  obtain w' v' where E: "Erase tr this (m_buffer (m_data v), i) w = (Inr (m_buffer (m_data v'), i), w')"
      "objs w' this = Some v'" "valid w' v'"
      "elems w' v' = take i (elems w v) @ drop (Suc i) (elems w v)"
      "m_size v' = m_size v - 1"
    using Erase_spec[OF assms, of tr] by blast
  have len: "length (elems w v) = m_size v" using assms(3) by (rule length_elems)
  have n: "elems w' v' ! j = (if j < i then elems w v ! j else elems w v ! Suc j)"
    if "j < m_size v - 1" for j
    using that assms(4) len by (simp add: E(4) erase_nth)
  have l: "load (m_buffer (m_data v'), i) w' = (Inr (elems w v ! Suc i), w')" if "Suc i < m_size v"
    using load_elem[OF E(3), of i] that E(5) n[of i] by simp
  have t: "elems w' v' ! (j - 1) = elems w v ! j" if "i < j" "j < m_size v" for j
  proof -
    have "\<not> j - 1 < i" "j - 1 < m_size v - 1" "Suc (j - 1) = j" using that by arith+
    then show ?thesis using n[of "j - 1"] by simp
  qed
  have e: "(m_buffer (m_data v'), i) = Vector_end v'" if "\<not> Suc i < m_size v"
    using that assms(4) E(5) by (simp add: Vector_end_def ptr_add_def GetAddress_def)
  have c1: "\<forall>j<i. elems w' v' ! j = elems w v ! j"
    using n assms(4) by auto
  have c2: "\<forall>j. i < j \<and> j < m_size v \<longrightarrow> elems w' v' ! (j - 1) = elems w v ! j"
    using t by blast
  have p: "ptr_add (Vector_begin v) i = (m_buffer (m_data v), i)"
      "ptr_add (Vector_begin v') i = (m_buffer (m_data v'), i)"
    by (simp_all add: ptr_add_def Vector_begin_def GetAddress_def)
  have c3: "if Suc i < m_size v
      then load (ptr_add (Vector_begin v') i) w' = (Inr (elems w v ! Suc i), w')
      else ptr_add (Vector_begin v') i = Vector_end v'"
    using l e by (simp add: p)
  have r: "Erase tr this (ptr_add (Vector_begin v) i) w = (Inr (ptr_add (Vector_begin v') i), w')"
    using E(1) by (simp add: p)
  show ?thesis
    using r E(2,3,5) c1 c2 c3 by blast
qed

theorem erase_at_position_witness:
  "sched roomy_world = [] \<and> objs roomy_world 0 = Some roomy_vector \<and> valid roomy_world roomy_vector \<and>
   (1::nat) < m_size roomy_vector \<and>
   (\<exists>w' v'. Erase copying 0 (Some 0, 1) roomy_world = (Inr (Some 0, 1), w') \<and>
      objs w' 0 = Some v' \<and> m_size v' = 2 \<and>
      elems w' v' ! 0 = 10 \<and> elems w' v' ! 1 = 30 \<and>
      load (Some 0, 1) w' = (Inr 30, w'))"
proof -
  have h1: "sched roomy_world = []" by (simp add: roomy_world_def)
  have h2: "objs roomy_world 0 = Some roomy_vector" by (simp add: roomy_world_def)
  have h4: "(1::nat) < m_size roomy_vector" by (simp add: roomy_vector_def)
  have c: "m_size roomy_vector = 3" "ptr_add (Vector_begin roomy_vector) 1 = (Some 0, 1)"
    by (simp_all add: roomy_vector_def ptr_add_def Vector_begin_def GetAddress_def)
  obtain w' v' p where P:
      "Erase copying 0 (Some 0, 1) roomy_world = (Inr p, w')"
      "objs w' 0 = Some v'" "valid w' v'" "m_size v' = 2"
      "\<forall>j<1. elems w' v' ! j = elems roomy_world roomy_vector ! j"
      "\<forall>j. 1 < j \<and> j < 3 \<longrightarrow> elems w' v' ! (j - 1) = elems roomy_world roomy_vector ! j"
      "p = ptr_add (Vector_begin v') 1" "load p w' = (Inr (elems roomy_world roomy_vector ! Suc 1), w')"
    using erase_at_position[OF h1 h2 valid_roomy h4, of copying] c by auto
  have b: "m_buffer (m_data v') = Some 0"
    using P(1) Erase_ok[OF h1 h2 valid_roomy, of 0 1 copying]
    by (simp add: roomy_vector_def P(7) ptr_add_def Vector_begin_def GetAddress_def)
  have "elems w' v' ! 0 = 10" "elems w' v' ! 1 = 30"
    using P(5) P(6)[rule_format, of 2]
    by (simp_all add: elems_roomy)
  then show ?thesis
    using h1 h2 h4 valid_roomy P b
    by (intro conjI exI[of _ w'] exI[of _ v'])
       (simp_all add: ptr_add_def Vector_begin_def GetAddress_def elems_roomy)
qed

text \<open>
  C6.  \<open>Resize(n)\<close> of a vector of length \<open>L\<close>, when no call throws and, if \<open>n\<close> is above
  the capacity, \<open>n * sizeof(T)\<close> does not wrap in \<open>size_t\<close>.  The product that
  \<open>Allocate\<close> passes to \<open>operator new\<close> is then the size of \<open>n\<close> objects.  For \<open>n < L\<close>
  the elements are the first \<open>n\<close> of before, in order; for \<open>n > L\<close> they are the \<open>L\<close> of
  before followed by \<open>n - L\<close> default-constructed values; for \<open>n = L\<close> nothing changes
  at all, neither the vector nor the rest of the world.
\<close>

theorem resize_contents:
  assumes "sched w = []" "objs w this = Some v" "valid w v"
    and "Capacity_of v < n \<Longrightarrow> fits tr n"
  shows "\<exists>w' v'. Resize tr this n w = (Inr (), w') \<and> objs w' this = Some v' \<and> valid w' v' \<and>
           m_size v' = n \<and>
           elems w' v' = (if n < m_size v then take n (elems w v)
                          else elems w v @ replicate (n - m_size v) (default_value tr)) \<and>
           (n = m_size v \<longrightarrow> w' = w \<and> v' = v) \<and>
           (Capacity_of v < n \<longrightarrow> alloc_bytes tr n = n * size_of tr)"
proof -
  have b: "alloc_bytes tr n = n * size_of tr" if "Capacity_of v < n"
    using assms(4)[OF that] by (simp add: fits_def alloc_bytes_def)
  show ?thesis using Resize_spec[OF assms(1-3), of tr n] b by blast
qed

theorem resize_contents_witness:
  "sched roomy_world = [] \<and> objs roomy_world 0 = Some roomy_vector \<and> valid roomy_world roomy_vector \<and>
   fits copying 6 \<and>
   (\<exists>w' v'. Resize copying 0 1 roomy_world = (Inr (), w') \<and> objs w' 0 = Some v' \<and>
      m_size v' = 1 \<and> elems w' v' = [10]) \<and>
   (\<exists>w' v'. Resize copying 0 6 roomy_world = (Inr (), w') \<and> objs w' 0 = Some v' \<and>
      m_size v' = 6 \<and> elems w' v' = [10, 20, 30, 0, 0, 0] \<and> alloc_bytes copying 6 = 48) \<and>
   Resize copying 0 3 roomy_world = (Inr (), roomy_world)"
proof -
  have h1: "sched roomy_world = []" by (simp add: roomy_world_def)
  have h2: "objs roomy_world 0 = Some roomy_vector" by (simp add: roomy_world_def)
  have c: "m_size roomy_vector = 3" "default_value copying = 0" "Capacity_of roomy_vector = 4"
      "size_of copying = 8"
    by (simp_all add: roomy_vector_def copying_def Capacity_of_def)
  have f: "fits copying 6" by (simp add: fits_def copying_def SIZE_MAX_def)
  have a: "\<exists>w' v'. Resize copying 0 1 roomy_world = (Inr (), w') \<and> objs w' 0 = Some v' \<and>
      m_size v' = 1 \<and> elems w' v' = [10]"
    using resize_contents[OF h1 h2 valid_roomy, of 1 copying] c elems_roomy by auto
  have b: "\<exists>w' v'. Resize copying 0 6 roomy_world = (Inr (), w') \<and> objs w' 0 = Some v' \<and>
      m_size v' = 6 \<and> elems w' v' = [10, 20, 30, 0, 0, 0] \<and> alloc_bytes copying 6 = 48"
    using resize_contents[OF h1 h2 valid_roomy, of 6 copying] f c elems_roomy
    by (auto simp add: numeral_3_eq_3)
  have d: "Resize copying 0 3 roomy_world = (Inr (), roomy_world)"
    using resize_contents[OF h1 h2 valid_roomy, of 3 copying] c by auto
  show ?thesis using h1 h2 valid_roomy f a b d by blast
qed

text \<open>
  C7.  \<open>Reserve(c)\<close>, when no call throws.  For \<open>c\<close> at most the capacity nothing changes
  at all: no allocation, the same vector, the same world.  For \<open>c\<close> above the capacity,
  when \<open>c * sizeof(T)\<close> does not wrap in \<open>size_t\<close>, the product that \<open>Allocate\<close> passes to
  \<open>operator new\<close> is the size of \<open>c\<close> objects, there is exactly one allocation, the
  capacity becomes \<open>c\<close>, and the length and the elements, in order, are those of before.
\<close>

theorem reserve_reallocates_once:
  assumes "sched w = []" "objs w this = Some v" "valid w v"
    and "Capacity_of v < c \<Longrightarrow> fits tr c"
  shows "\<exists>w' v'. Reserve tr this c w = (Inr (), w') \<and> objs w' this = Some v' \<and> valid w' v' \<and>
           elems w' v' = elems w v \<and> m_size v' = m_size v \<and>
           (if c \<le> Capacity_of v
            then w' = w \<and> v' = v
            else alloc_bytes tr c = c * size_of tr \<and>
                 n_alloc w' = Suc (n_alloc w) \<and> Capacity_of v' = c)"
proof -
  have b: "alloc_bytes tr c = c * size_of tr" if "\<not> c \<le> Capacity_of v"
    using assms(4) that by (simp add: fits_def alloc_bytes_def)
  show ?thesis using Reserve_post[OF assms(1-3), of tr c] b by (auto split: if_splits)
qed

theorem reserve_reallocates_once_witness:
  "sched roomy_world = [] \<and> objs roomy_world 0 = Some roomy_vector \<and> valid roomy_world roomy_vector \<and>
   fits copying 9 \<and>
   Reserve copying 0 3 roomy_world = (Inr (), roomy_world) \<and>
   (\<exists>w' v'. Reserve copying 0 9 roomy_world = (Inr (), w') \<and> objs w' 0 = Some v' \<and>
      elems w' v' = [10, 20, 30] \<and> m_size v' = 3 \<and> Capacity_of v' = 9 \<and> n_alloc w' = 2 \<and>
      alloc_bytes copying 9 = 72)"
proof -
  have h1: "sched roomy_world = []" by (simp add: roomy_world_def)
  have h2: "objs roomy_world 0 = Some roomy_vector" by (simp add: roomy_world_def)
  have c: "Capacity_of roomy_vector = 4" "n_alloc roomy_world = 1" "m_size roomy_vector = 3"
      "size_of copying = 8"
    by (simp_all add: Capacity_of_def roomy_vector_def roomy_world_def copying_def)
  have f: "fits copying 9" by (simp add: fits_def copying_def SIZE_MAX_def)
  have a: "Reserve copying 0 3 roomy_world = (Inr (), roomy_world)"
    using reserve_reallocates_once[OF h1 h2 valid_roomy, of 3 copying] c by auto
  have b: "\<exists>w' v'. Reserve copying 0 9 roomy_world = (Inr (), w') \<and> objs w' 0 = Some v' \<and>
      elems w' v' = [10, 20, 30] \<and> m_size v' = 3 \<and> Capacity_of v' = 9 \<and> n_alloc w' = 2 \<and>
      alloc_bytes copying 9 = 72"
    using reserve_reallocates_once[OF h1 h2 valid_roomy, of 9 copying] f c elems_roomy by auto
  show ?thesis using h1 h2 valid_roomy f a b by blast
qed

text \<open>
  C8.  The growth policy.  On a full vector (\<open>size_ == Capacity()\<close>), when no call throws,
  the capacity after \<open>PushBack\<close>, after \<open>EmplaceBack\<close>, and after \<open>Emplace\<close> or \<open>Insert\<close>
  at any position is \<open>max(1, 2 * capacity)\<close> of the capacity before.
\<close>

theorem growth_doubles_capacity:
  assumes "sched w = []" "objs w this = Some v" "valid w v" "m_size v = Capacity_of v"
  shows "(\<exists>w'. PushBack tr this (k, x) w = (Inr (), w') \<and>
            Capacity this w' = (Inr (max 1 (2 * Capacity_of v)), w')) \<and>
         (\<exists>w' p. EmplaceBack tr this (k, x) w = (Inr p, w') \<and>
            Capacity this w' = (Inr (max 1 (2 * Capacity_of v)), w')) \<and>
         (\<forall>i\<le>m_size v.
            (\<exists>w' p. Emplace tr this (ptr_add (Vector_begin v) i) (k, x) w = (Inr p, w') \<and>
               Capacity this w' = (Inr (max 1 (2 * Capacity_of v)), w')) \<and>
            (\<exists>w' p. Insert tr this (ptr_add (Vector_begin v) i) (k, x) w = (Inr p, w') \<and>
               Capacity this w' = (Inr (max 1 (2 * Capacity_of v)), w')))"
proof -
  have g: "grown (m_size v) = max 1 (2 * Capacity_of v)"
    using assms(4) by (simp add: grown_max)
  have a: "\<exists>w'. PushBack tr this (k, x) w = (Inr (), w') \<and>
            Capacity this w' = (Inr (max 1 (2 * Capacity_of v)), w')"
    using PushBackImpl_spec[OF assms(1-3), of tr k x] assms(4) g
    by (auto simp add: PushBack_def Capacity_ok)
  have b: "\<exists>w' p. EmplaceBack tr this (k, x) w = (Inr p, w') \<and>
            Capacity this w' = (Inr (max 1 (2 * Capacity_of v)), w')"
    using EmplaceBack_spec[OF assms(1-3), of tr k x] assms(4) g
    by (auto simp add: Capacity_ok)
  have c: "\<exists>w' p. Emplace tr this (ptr_add (Vector_begin v) i) (k, x) w = (Inr p, w') \<and>
               Capacity this w' = (Inr (max 1 (2 * Capacity_of v)), w')" if "i \<le> m_size v" for i
    using Emplace_spec[OF assms(1-3) that, of tr k x] assms(4) g
    by (auto simp add: Capacity_ok ptr_add_def Vector_begin_def GetAddress_def)
  show ?thesis using a b c by (simp add: Insert_def)
qed

theorem growth_doubles_capacity_witness:
  "sched full_world = [] \<and> objs full_world 0 = Some full_vector \<and> valid full_world full_vector \<and>
   m_size full_vector = Capacity_of full_vector \<and>
   (\<exists>w'. PushBack copying 0 (CopyCtor, 30) full_world = (Inr (), w') \<and>
      Capacity 0 w' = (Inr 4, w')) \<and>
   (\<exists>w' p. Insert copying 0 (Some 0, 1) (CopyCtor, 30) full_world = (Inr p, w') \<and>
      Capacity 0 w' = (Inr 4, w'))"
proof -
  have h1: "sched full_world = []" by (simp add: full_world_def)
  have h2: "objs full_world 0 = Some full_vector" by (simp add: full_world_def)
  have h4: "m_size full_vector = Capacity_of full_vector"
    by (simp add: full_vector_def Capacity_of_def)
  have c: "Capacity_of full_vector = 2" "(1::nat) \<le> m_size full_vector"
      "ptr_add (Vector_begin full_vector) 1 = (Some 0, 1)"
    by (simp_all add: full_vector_def Capacity_of_def ptr_add_def Vector_begin_def GetAddress_def)
  note G = growth_doubles_capacity[OF h1 h2 valid_full h4, of copying CopyCtor 30]
  have a: "\<exists>w'. PushBack copying 0 (CopyCtor, 30) full_world = (Inr (), w') \<and>
      Capacity 0 w' = (Inr 4, w')"
    using G c(1) by simp
  have b: "\<exists>w' p. Insert copying 0 (Some 0, 1) (CopyCtor, 30) full_world = (Inr p, w') \<and>
      Capacity 0 w' = (Inr 4, w')"
    using G[THEN conjunct2, THEN conjunct2, rule_format, OF c(2)] c(1,3) by simp
  show ?thesis using h1 h2 h4 valid_full a b by blast
qed

text \<open>
  C9.  An assignment that throws during an insertion that has room.  The vector
  \<open>[10, 20]\<close> in a block of four slots satisfies the invariant.  \<open>Insert(begin(), 30)\<close>
  constructs a copy of the last element in slot 2, and the first assignment of
  \<open>std::copy_backward\<close> throws before \<open>size_\<close> is incremented.  The vector that the
  caller is left with has length 2 and an object in slot 2: its live elements do not
  occupy the range \<open>[0, size_)\<close> exactly, and the invariant fails.
\<close>

theorem insert_assignment_failure_strays:
  "(let w0 = snd (pair_setup (empty_world stray_sched));
        w1 = snd (stray_run (empty_world stray_sched));
        v = \<lparr>m_data = \<lparr>m_buffer = Some 0, m_capacity = 4\<rparr>, m_size = 2\<rparr>
    in fst (pair_setup (empty_world stray_sched)) = Inr () \<and>
       objs w0 0 = Some v \<and> valid w0 v \<and>
       block w0 (m_data v) = [Some 10, Some 20, None, None] \<and>
       fst (stray_run (empty_world stray_sched)) = Inl ElemThrow \<and>
       objs w1 0 = Some v \<and>
       block w1 (m_data v) = [Some 10, Some 20, Some 20, None] \<and>
       \<not> valid w1 v)"
  by code_simp

text \<open>
  C10.  Self-assignment leaves the vector as it is.  Both assignment operators compare
  \<open>this\<close> with the address of their argument before they do anything; on equal
  addresses neither touches the object, its block, the heap or any counter: the world
  after \<open>v = v\<close> and after \<open>v = std::move(v)\<close> is the world before, so the length, the
  capacity and the elements are the same.
\<close>

theorem self_assignment_unchanged:
  "assign_copy tr this this w = (Inr (), w) \<and> assign_move this this w = (Inr (), w)"
  by (simp add: assign_copy_def assign_move_def)

end
